theory Spec2Isabelle
  imports Complex_Main "HOL-Library.Sublist"
begin

section \<open>The RAG example script (cookbook/rag\_examples/rag\_example.py)\<close>

text \<open>
  The script sequences calls to collaborators that are not part of the file: the
  helpers \<^verbatim>\<open>load_data\<close>, \<^verbatim>\<open>embed_df_with_openai\<close>, \<^verbatim>\<open>setup_pinecone\<close>, the two prompt
  classes, the chat client, pandas' pickling and the constants of \<^verbatim>\<open>config\<close>. They are
  parameters of the model. Each of them may raise, and each but the pickling acts on an
  outside world (network, provider, index) of type \<open>'w\<close> that the model threads through
  every call. The file system is kept apart from that world: the collaborators are taken
  not to touch it, only \<^verbatim>\<open>to_pickle\<close> writes it.

  A run returns its result (\<open>Inl\<close> an uncaught exception), the list of calls it made
  with the outcome of each, and the final state.
\<close>

subsection \<open>Data\<close>

text \<open>
  The chat client. The class is not among the sources; what the script tells of it is
  that it is built from an \<^verbatim>\<open>api_key\<close>. The constructor itself is a collaborator (below).
\<close>

record OpenAIChat =
  api_key :: "string option"

text \<open>The two prompt classes, with their fields \<^verbatim>\<open>num_statements\<close>, \<^verbatim>\<open>topic\<close>, \<^verbatim>\<open>df\<close>.\<close>

datatype 'df prompt =
    LocalNewsRagPrompt int string 'df
  | PineconeNewsRagPrompt int string 'df

text \<open>The calls a run makes, in the order of the source.\<close>

datatype 'df call =
    Getenv string
  | OpenAIChatInit "string option"
  | LoadData string int
  | EmbedDf 'df OpenAIChat
  | ToPickle 'df string
  | ReadPickle string
  | SetupPinecone 'df
  | ChatCreate OpenAIChat "'df prompt"
  | Print string

type_synonym ('df, 'e) event = "'df call \<times> 'e option"

record ('w, 'f) state =
  world :: 'w
  fs :: "string \<Rightarrow> 'f option"

type_synonym ('a, 'w, 'f, 'df, 'e) res =
  "('e + 'a) \<times> ('df, 'e) event list \<times> ('w, 'f) state"

text \<open>The constants imported from \<^verbatim>\<open>config\<close>.\<close>

record config =
  FILENAME :: string
  MAX_TOKENS :: int
  URL :: string

text \<open>
  The collaborators. \<open>OpenAIChat_init\<close> is the constructor of the chat client: it is
  given the key and may raise. \<open>read_pickle\<close> receives what the file system holds at the
  path (\<open>None\<close> when there is no file) and decides the exception itself.
\<close>

record ('w, 'f, 'df, 'c, 'e) externals =
  OpenAIChat_init :: "string option \<Rightarrow> 'e + OpenAIChat"
  load_data :: "string \<Rightarrow> int \<Rightarrow> 'w \<Rightarrow> ('e + 'df) \<times> 'w"
  embed_df_with_openai :: "'df \<Rightarrow> OpenAIChat \<Rightarrow> 'w \<Rightarrow> ('e + 'df) \<times> 'w"
  to_pickle :: "'df \<Rightarrow> 'e + 'f"
  read_pickle :: "'f option \<Rightarrow> 'e + 'df"
  setup_pinecone :: "'df \<Rightarrow> 'w \<Rightarrow> ('e + unit) \<times> 'w"
  chat_create :: "OpenAIChat \<Rightarrow> 'df prompt \<Rightarrow> 'w \<Rightarrow> ('e + 'c) \<times> 'w"
  str_completion :: "'c \<Rightarrow> string"

subsection \<open>Sequencing with exceptions\<close>

definition return_run :: "'a \<Rightarrow> ('w, 'f) state \<Rightarrow> ('a, 'w, 'f, 'df, 'e) res" where
  "return_run a s = (Inr a, [], s)"

text \<open>An exception of the first computation ends the run: the second never starts.\<close>

definition bind_run ::
  "(('w, 'f) state \<Rightarrow> ('a, 'w, 'f, 'df, 'e) res) \<Rightarrow>
   ('a \<Rightarrow> ('w, 'f) state \<Rightarrow> ('b, 'w, 'f, 'df, 'e) res) \<Rightarrow>
   ('w, 'f) state \<Rightarrow> ('b, 'w, 'f, 'df, 'e) res" where
  "bind_run m k s =
     (case m s of
        (Inl e, evs, s') \<Rightarrow> (Inl e, evs, s')
      | (Inr a, evs, s') \<Rightarrow>
          (case k a s' of (r, evs', s'') \<Rightarrow> (r, evs @ evs', s'')))"

definition outcome :: "'e + 'a \<Rightarrow> 'e option" where
  "outcome r = (case r of Inl e \<Rightarrow> Some e | Inr _ \<Rightarrow> None)"

text \<open>A call to a collaborator that acts on the outside world.\<close>

definition extcall ::
  "'df call \<Rightarrow> ('w \<Rightarrow> ('e + 'a) \<times> 'w) \<Rightarrow> ('w, 'f) state \<Rightarrow> ('a, 'w, 'f, 'df, 'e) res" where
  "extcall c f s =
     (case f (world s) of (r, w') \<Rightarrow> (r, [(c, outcome r)], s\<lparr>world := w'\<rparr>))"

definition print :: "string \<Rightarrow> ('w, 'f) state \<Rightarrow> (unit, 'w, 'f, 'df, 'e) res" where
  "print x s = (Inr (), [(Print x, None)], s)"

text \<open>
  \<^verbatim>\<open>df.to_pickle(path)\<close>: the file is written when the pickling succeeds. When it
  raises, the model leaves the file system as it was (a partly written file is not
  modelled).
\<close>

definition to_pickle_file ::
  "('w, 'f, 'df, 'c, 'e) externals \<Rightarrow> 'df \<Rightarrow> string \<Rightarrow> ('w, 'f) state \<Rightarrow>
   (unit, 'w, 'f, 'df, 'e) res" where
  "to_pickle_file ext df path s =
     (case to_pickle ext df of
        Inl e \<Rightarrow> (Inl e, [(ToPickle df path, Some e)], s)
      | Inr f \<Rightarrow> (Inr (), [(ToPickle df path, None)], s\<lparr>fs := (fs s)(path \<mapsto> f)\<rparr>))"

text \<open>\<^verbatim>\<open>pd.read_pickle(path)\<close>.\<close>

definition read_pickle_file ::
  "('w, 'f, 'df, 'c, 'e) externals \<Rightarrow> string \<Rightarrow> ('w, 'f) state \<Rightarrow>
   ('df, 'w, 'f, 'df, 'e) res" where
  "read_pickle_file ext path s =
     (let r = read_pickle ext (fs s path) in (r, [(ReadPickle path, outcome r)], s))"

subsection \<open>The script's functions\<close>

definition summarize_news_local_embeddings ::
  "('w, 'f, 'df, 'c, 'e) externals \<Rightarrow> OpenAIChat \<Rightarrow> string \<Rightarrow> int \<Rightarrow> 'df \<Rightarrow>
   ('w, 'f) state \<Rightarrow> (string, 'w, 'f, 'df, 'e) res" where
  "summarize_news_local_embeddings ext chat query num_articles df =
     bind_run
       (extcall (ChatCreate chat (LocalNewsRagPrompt num_articles query df))
          (chat_create ext chat (LocalNewsRagPrompt num_articles query df)))
       (\<lambda>completion. return_run (str_completion ext completion))"

definition summarize_news_pinecone_embeddings ::
  "('w, 'f, 'df, 'c, 'e) externals \<Rightarrow> OpenAIChat \<Rightarrow> string \<Rightarrow> int \<Rightarrow> 'df \<Rightarrow>
   ('w, 'f) state \<Rightarrow> (string, 'w, 'f, 'df, 'e) res" where
  "summarize_news_pinecone_embeddings ext chat query num_articles df =
     bind_run
       (extcall (ChatCreate chat (PineconeNewsRagPrompt num_articles query df))
          (chat_create ext chat (PineconeNewsRagPrompt num_articles query df)))
       (\<lambda>completion. return_run (str_completion ext completion))"

definition topics :: "string list" where
  "topics =
     [''soccer teams/players going through trouble'',
      ''environmental factors affecting economy'',
      ''celebrity or politician scandals'']"

text \<open>The body of \<^verbatim>\<open>for topic in topics\<close>, and the loop over the rest of the list.\<close>

primrec topic_loop ::
  "('w, 'f, 'df, 'c, 'e) externals \<Rightarrow> OpenAIChat \<Rightarrow> bool \<Rightarrow> 'df \<Rightarrow> string list \<Rightarrow>
   ('w, 'f) state \<Rightarrow> (unit, 'w, 'f, 'df, 'e) res" where
  "topic_loop ext chat use_pinecone df [] = return_run ()"
| "topic_loop ext chat use_pinecone df (topic # rest) =
     bind_run
       (if use_pinecone
        then bind_run (summarize_news_pinecone_embeddings ext chat topic 3 df) print
        else bind_run (summarize_news_local_embeddings ext chat topic 3 df) print)
       (\<lambda>_. bind_run (print [CHR 0x0A])
         (\<lambda>_. topic_loop ext chat use_pinecone df rest))"

definition main ::
  "config \<Rightarrow> ('w, 'f, 'df, 'c, 'e) externals \<Rightarrow> OpenAIChat \<Rightarrow> bool \<Rightarrow>
   ('w, 'f) state \<Rightarrow> (unit, 'w, 'f, 'df, 'e) res" where
  "main cfg ext chat use_pinecone =
     bind_run
       (\<lambda>s. if fs s (FILENAME cfg) = None
          then bind_run (extcall (LoadData (URL cfg) (MAX_TOKENS cfg))
                           (load_data ext (URL cfg) (MAX_TOKENS cfg)))
                 (\<lambda>df. bind_run (extcall (EmbedDf df chat) (embed_df_with_openai ext df chat))
                   (\<lambda>df. bind_run (to_pickle_file ext df (FILENAME cfg))
                     (\<lambda>_. return_run df))) s
          else read_pickle_file ext (FILENAME cfg) s)
       (\<lambda>df. bind_run
          (if use_pinecone then extcall (SetupPinecone df) (setup_pinecone ext df)
           else return_run ())
          (\<lambda>_. topic_loop ext chat use_pinecone df topics))"

subsection \<open>The command line\<close>

text \<open>
  The \<^verbatim>\<open>__main__\<close> block builds an \<^verbatim>\<open>ArgumentParser\<close>, adds one argument to it and
  parses the command line. The parser is the list of its arguments; the constructor
  registers \<^verbatim>\<open>-h/--help\<close> by itself (its \<^verbatim>\<open>add_help\<close> default).
\<close>

datatype action = StoreTrue | Help

record argument =
  option_strings :: "string list"
  act :: action

definition ArgumentParser :: "argument list" where
  "ArgumentParser = [\<lparr>option_strings = [''-h'', ''--help''], act = Help\<rparr>]"

definition add_argument :: "argument list \<Rightarrow> string list \<Rightarrow> action \<Rightarrow> argument list" where
  "add_argument p names a = p @ [\<lparr>option_strings = names, act = a\<rparr>]"

definition parser :: "argument list" where
  "parser = add_argument ArgumentParser [''-pc'', ''--pinecone''] StoreTrue"

text \<open>
  How \<^verbatim>\<open>argparse\<close> reads one token (its \<^verbatim>\<open>_parse_optional\<close> and \<^verbatim>\<open>_get_option_tuples\<close>):
  a token that does not start with \<^verbatim>\<open>-\<close> is a positional; an exact option string is that
  option; a long token may abbreviate an option string and may carry a value after \<^verbatim>\<open>=\<close>;
  a single-dash token may abbreviate an option string, or start with a two-character
  option string and go on with more characters (a cluster). Neither action of this parser
  takes a value, so a token that gives one is rejected when its turn comes.
\<close>

datatype resolution =
    Positional
  | Matched action
  | Cluster "action list" bool
  | Rejected
  | Ambiguous
  | Unknown

definition startswith :: "string \<Rightarrow> string \<Rightarrow> bool" where
  "startswith s p = (take (length p) s = p)"

text \<open>\<^verbatim>\<open>str.partition('=')\<close>: the part before the first \<^verbatim>\<open>=\<close>, and the part after it if there is one.\<close>

definition partition_eq :: "string \<Rightarrow> string \<times> string option" where
  "partition_eq tok =
     (takeWhile (\<lambda>c. c \<noteq> CHR ''='') tok,
      if CHR ''='' \<in> set tok then Some (tl (dropWhile (\<lambda>c. c \<noteq> CHR ''='') tok)) else None)"

text \<open>The action registered under an option string.\<close>

definition lookup :: "argument list \<Rightarrow> string \<Rightarrow> action option" where
  "lookup p opt = map_option act (find (\<lambda>a. opt \<in> set (option_strings a)) p)"

text \<open>
  The candidates for a token: the action, the value it would get, and whether the
  token starts with the whole (two-character) option string.
\<close>

definition option_tuples :: "argument list \<Rightarrow> string \<Rightarrow> (action \<times> string option \<times> bool) list" where
  "option_tuples p tok =
     (if take 2 tok = ''--''
      then concat (map (\<lambda>a. map (\<lambda>_. (act a, snd (partition_eq tok), False))
                (filter (\<lambda>opt. startswith opt (fst (partition_eq tok))) (option_strings a))) p)
      else concat (map (\<lambda>a. concat (map (\<lambda>opt.
                if opt = take 2 tok then [(act a, Some (drop 2 tok), True)]
                else if startswith opt tok then [(act a, None, False)]
                else []) (option_strings a))) p))"

text \<open>
  A cluster (the loop of \<^verbatim>\<open>consume_optional\<close>): after an option that takes no value, each
  further character is read as a single-dash option. A \<^verbatim>\<open>-\<close> among them, or a \<^verbatim>\<open>=\<close> after one
  that is an option, is an error; a character that is no option ends the cluster and is
  left over. The result is the actions of the cluster and whether something is left over.
\<close>

fun cluster :: "argument list \<Rightarrow> action \<Rightarrow> string \<Rightarrow> (action list \<times> bool) option" where
  "cluster p a [] = Some ([a], False)"
| "cluster p a (c # cs) =
     (if c = CHR ''-'' then None
      else (case lookup p [CHR ''-'', c] of
              None \<Rightarrow> Some ([a], True)
            | Some a' \<Rightarrow>
                if cs \<noteq> [] \<and> hd cs = CHR ''='' then None
                else map_option (\<lambda>(as, left). (a # as, left)) (cluster p a' cs)))"

definition parse_optional :: "argument list \<Rightarrow> string \<Rightarrow> resolution" where
  "parse_optional p tok =
     (if tok = [] then Positional
      else if hd tok \<noteq> CHR ''-'' then Positional
      else (case lookup p tok of
              Some a \<Rightarrow> Matched a
            | None \<Rightarrow>
                if length tok = 1 then Positional
                else if snd (partition_eq tok) \<noteq> None \<and> lookup p (fst (partition_eq tok)) \<noteq> None
                then Rejected
                else (case option_tuples p tok of
                        [] \<Rightarrow> Unknown
                      | [(a, None, _)] \<Rightarrow> Matched a
                      | [(a, Some x, short)] \<Rightarrow>
                          if short
                          then (case cluster p a x of
                                  None \<Rightarrow> Rejected
                                | Some (as, left) \<Rightarrow> Cluster as left)
                          else Rejected
                      | _ \<Rightarrow> Ambiguous)))"

record Namespace =
  pinecone :: bool

text \<open>
  The actions are taken from left to right. Help prints the usage and exits with status
  0 at once; a rejected token is an error at once (status 2); \<^verbatim>\<open>store_true\<close> sets the
  attribute; positionals and unknown options are left over, and leftovers are an error
  at the end (status 2).
\<close>

fun consume :: "resolution list \<Rightarrow> bool \<Rightarrow> bool \<Rightarrow> int + Namespace" where
  "consume [] flag extras = (if extras then Inl 2 else Inr \<lparr>pinecone = flag\<rparr>)"
| "consume (Matched Help # rs) flag extras = Inl 0"
| "consume (Matched StoreTrue # rs) flag extras = consume rs True extras"
| "consume (Cluster as left # rs) flag extras =
     (if Help \<in> set as then Inl 0
      else consume rs (flag \<or> StoreTrue \<in> set as) (extras \<or> left))"
| "consume (Rejected # rs) flag extras = Inl 2"
| "consume (_ # rs) flag extras = consume rs flag True"

text \<open>
  \<^verbatim>\<open>parse_args\<close>: the tokens up to the marker \<^verbatim>\<open>--\<close> are read first, and an ambiguous one
  is an error before any action is taken; the marker and what follows it are leftovers.
  \<^verbatim>\<open>store_true\<close> gives the attribute the default \<^verbatim>\<open>False\<close>.
\<close>

definition parse_args :: "argument list \<Rightarrow> string list \<Rightarrow> int + Namespace" where
  "parse_args p argv =
     (let rs = map (parse_optional p) (takeWhile (\<lambda>tok. tok \<noteq> ''--'') argv) in
      if Ambiguous \<in> set rs then Inl 2
      else consume rs False (dropWhile (\<lambda>tok. tok \<noteq> ''--'') argv \<noteq> []))"

text \<open>
  The spellings of the flag: the two option strings of the source and the abbreviations
  of them that \<^verbatim>\<open>argparse\<close> accepts. The flag is passed when a token is one of them.
\<close>

definition pinecone_spellings :: "string list" where
  "pinecone_spellings =
     [''-pc'', ''--pinecone'', ''-p'', ''--p'', ''--pi'', ''--pin'', ''--pine'', ''--pinec'',
      ''--pineco'', ''--pinecon'']"

definition flag_passed :: "string list \<Rightarrow> bool" where
  "flag_passed argv = list_ex (\<lambda>tok. tok \<in> set pinecone_spellings) argv"

subsection \<open>The process\<close>

text \<open>How the interpreter ends: \<^verbatim>\<open>SystemExit\<close>, an uncaught exception, or the end of the script.\<close>

datatype 'e ending = SystemExit int | Uncaught 'e | Finished

definition exit_code :: "'e ending \<Rightarrow> int" where
  "exit_code x = (case x of SystemExit n \<Rightarrow> n | Uncaught _ \<Rightarrow> 1 | Finished \<Rightarrow> 0)"

definition getenv :: "(string \<Rightarrow> string option) \<Rightarrow> string \<Rightarrow> string option" where
  "getenv penv name = penv name"

text \<open>
  Running the file: the module body reads the key from the process environment and
  constructs the global \<^verbatim>\<open>chat\<close> with it; an exception of the constructor ends the
  process there. Then the \<^verbatim>\<open>__main__\<close> block parses \<^verbatim>\<open>argv\<close> and calls \<^verbatim>\<open>main\<close>.
\<close>

definition script ::
  "(string \<Rightarrow> string option) \<Rightarrow> config \<Rightarrow> ('w, 'f, 'df, 'c, 'e) externals \<Rightarrow> string list \<Rightarrow>
   ('w, 'f) state \<Rightarrow> 'e ending \<times> ('df, 'e) event list \<times> ('w, 'f) state" where
  "script penv cfg ext argv s =
     (let key = getenv penv ''OPENAI_API_KEY'';
          evs0 = [(Getenv ''OPENAI_API_KEY'', None),
                  (OpenAIChatInit key, outcome (OpenAIChat_init ext key))]
      in case OpenAIChat_init ext key of
           Inl e \<Rightarrow> (Uncaught e, evs0, s)
         | Inr chat \<Rightarrow>
             (case parse_args parser argv of
                Inl n \<Rightarrow> (SystemExit n, evs0, s)
              | Inr args \<Rightarrow>
                  (case main cfg ext chat (pinecone args) s of
                     (Inl e, evs, s') \<Rightarrow> (Uncaught e, evs0 @ evs, s')
                   | (Inr _, evs, s') \<Rightarrow> (Finished, evs0 @ evs, s'))))"

subsection \<open>Reading a run\<close>

definition result_of :: "'r \<times> 'evs \<times> 's \<Rightarrow> 'r" where
  "result_of x = fst x"

definition events_of :: "'r \<times> 'evs \<times> 's \<Rightarrow> 'evs" where
  "events_of x = fst (snd x)"

definition final_of :: "'r \<times> 'evs \<times> 's \<Rightarrow> 's" where
  "final_of x = snd (snd x)"

datatype backend = Local | Hosted

definition selected :: "bool \<Rightarrow> backend" where
  "selected use_pinecone = (if use_pinecone then Hosted else Local)"

fun retrieval_backend :: "'df call \<Rightarrow> backend option" where
  "retrieval_backend (ChatCreate _ (LocalNewsRagPrompt _ _ _)) = Some Local"
| "retrieval_backend (ChatCreate _ (PineconeNewsRagPrompt _ _ _)) = Some Hosted"
| "retrieval_backend _ = None"

definition backends :: "('df, 'e) event list \<Rightarrow> backend list" where
  "backends evs = List.map_filter (\<lambda>ev. retrieval_backend (fst ev)) evs"

fun is_provision :: "'df call \<Rightarrow> bool" where
  "is_provision (SetupPinecone _) = True"
| "is_provision _ = False"

fun is_retrieval :: "'df call \<Rightarrow> bool" where
  "is_retrieval (ChatCreate _ _) = True"
| "is_retrieval _ = False"

fun is_build :: "'df call \<Rightarrow> bool" where
  "is_build (LoadData _ _) = True"
| "is_build (EmbedDf _ _) = True"
| "is_build _ = False"

fun is_write :: "'df call \<Rightarrow> bool" where
  "is_write (ToPickle _ _) = True"
| "is_write _ = False"

fun is_read :: "'df call \<Rightarrow> bool" where
  "is_read (ReadPickle _) = True"
| "is_read _ = False"

text \<open>The topic and the number of articles of every retrieval, in the order of the calls.\<close>

fun request :: "'df call \<Rightarrow> (int \<times> string) option" where
  "request (ChatCreate _ (LocalNewsRagPrompt n t _)) = Some (n, t)"
| "request (ChatCreate _ (PineconeNewsRagPrompt n t _)) = Some (n, t)"
| "request _ = None"

definition requests :: "('df, 'e) event list \<Rightarrow> (int \<times> string) list" where
  "requests evs = List.map_filter (\<lambda>ev. request (fst ev)) evs"

text \<open>What the prints put on standard output: each adds a newline to its argument.\<close>

fun printed :: "'df call \<Rightarrow> string" where
  "printed (Print x) = x @ [CHR 0x0A]"
| "printed _ = []"

definition stdout :: "('df, 'e) event list \<Rightarrow> string" where
  "stdout evs = concat (map (\<lambda>ev. printed (fst ev)) evs)"

subsection \<open>A small world to run the script in\<close>

text \<open>
  Dataframes, files and the outside world are numbers here, completions and exceptions
  are strings. Every collaborator succeeds and counts its call in the world; the
  constructor of the client takes any key, also none.
\<close>

definition sample_cfg :: config where
  "sample_cfg = \<lparr>FILENAME = ''news.pkl'', MAX_TOKENS = 1000, URL = ''http://news''\<rparr>"

definition sample_ext :: "(nat, nat, nat, string, string) externals" where
  "sample_ext =
     \<lparr>OpenAIChat_init = (\<lambda>key. Inr \<lparr>api_key = key\<rparr>),
      load_data = (\<lambda>url n w. (Inr 10, Suc w)),
      embed_df_with_openai = (\<lambda>df chat w. (Inr (Suc df), Suc w)),
      to_pickle = (\<lambda>df. Inr df),
      read_pickle = (\<lambda>f. case f of None \<Rightarrow> Inl ''FileNotFoundError'' | Some d \<Rightarrow> Inr d),
      setup_pinecone = (\<lambda>df w. (Inr (), Suc w)),
      chat_create = (\<lambda>chat p w. (Inr ''summary'', Suc w)),
      str_completion = (\<lambda>c. c)\<rparr>"

definition sample_chat :: OpenAIChat where
  "sample_chat = \<lparr>api_key = Some ''sk''\<rparr>"

definition fresh :: "(nat, nat) state" where
  "fresh = \<lparr>world = 0, fs = Map.empty\<rparr>"

definition cached :: "(nat, nat) state" where
  "cached = \<lparr>world = 0, fs = [''news.pkl'' \<mapsto> 7]\<rparr>"

subsection \<open>The parts of \<open>main\<close>\<close>

text \<open>
  The first statement of \<^verbatim>\<open>main\<close> (the \<^verbatim>\<open>if not os.path.exists(FILENAME)\<close> with its two
  branches) and the prompt each mode builds, named so that the theorems can speak of them.
\<close>

definition load_or_build ::
  "config \<Rightarrow> ('w, 'f, 'df, 'c, 'e) externals \<Rightarrow> OpenAIChat \<Rightarrow>
   ('w, 'f) state \<Rightarrow> ('df, 'w, 'f, 'df, 'e) res" where
  "load_or_build cfg ext chat s =
     (if fs s (FILENAME cfg) = None
      then bind_run (extcall (LoadData (URL cfg) (MAX_TOKENS cfg))
                       (load_data ext (URL cfg) (MAX_TOKENS cfg)))
             (\<lambda>df. bind_run (extcall (EmbedDf df chat) (embed_df_with_openai ext df chat))
               (\<lambda>df. bind_run (to_pickle_file ext df (FILENAME cfg))
                 (\<lambda>_. return_run df))) s
      else read_pickle_file ext (FILENAME cfg) s)"

definition prompt_for :: "bool \<Rightarrow> int \<Rightarrow> string \<Rightarrow> 'df \<Rightarrow> 'df prompt" where
  "prompt_for use_pinecone n t df =
     (if use_pinecone then PineconeNewsRagPrompt n t df else LocalNewsRagPrompt n t df)"

text \<open>The calls of the topic loop: retrievals and prints.\<close>

fun is_loop_call :: "'df call \<Rightarrow> bool" where
  "is_loop_call (ChatCreate _ _) = True"
| "is_loop_call (Print _) = True"
| "is_loop_call _ = False"

text \<open>
  A run in which no exception is swallowed: every call but the last returned, and the
  run ends with an exception exactly when its last call raised it.
\<close>

definition propagates :: "('e + 'a) \<times> ('df, 'e) event list \<times> 's \<Rightarrow> bool" where
  "propagates x =
     (list_all (\<lambda>ev. snd ev = None) (butlast (events_of x)) \<and>
      (case result_of x of
         Inl e \<Rightarrow> events_of x \<noteq> [] \<and> snd (last (events_of x)) = Some e
       | Inr _ \<Rightarrow> list_all (\<lambda>ev. snd ev = None) (events_of x)))"

text \<open>The dataframe a call is given.\<close>

fun corpus_of :: "'df call \<Rightarrow> 'df option" where
  "corpus_of (SetupPinecone df) = Some df"
| "corpus_of (ChatCreate _ (LocalNewsRagPrompt _ _ df)) = Some df"
| "corpus_of (ChatCreate _ (PineconeNewsRagPrompt _ _ df)) = Some df"
| "corpus_of _ = None"

text \<open>Everything \<^verbatim>\<open>main\<close> does before the topic loop; it hands the dataframe to the loop.\<close>

definition before_loop ::
  "config \<Rightarrow> ('w, 'f, 'df, 'c, 'e) externals \<Rightarrow> OpenAIChat \<Rightarrow> bool \<Rightarrow>
   ('w, 'f) state \<Rightarrow> ('df, 'w, 'f, 'df, 'e) res" where
  "before_loop cfg ext chat use_pinecone =
     bind_run (load_or_build cfg ext chat)
       (\<lambda>df. bind_run
          (if use_pinecone then extcall (SetupPinecone df) (setup_pinecone ext df)
           else return_run ())
          (\<lambda>_. return_run df))"


text \<open>The calls that \<^verbatim>\<open>main\<close> makes, as against those of the module body.\<close>

fun is_startup :: "'df call \<Rightarrow> bool" where
  "is_startup (Getenv _) = True"
| "is_startup (OpenAIChatInit _) = True"
| "is_startup _ = False"


text \<open>A world in which provisioning the index fails.\<close>

definition sample_ext_no_index :: "(nat, nat, nat, string, string) externals" where
  "sample_ext_no_index =
     sample_ext\<lparr>setup_pinecone := (\<lambda>df w. (Inl ''IndexUnavailable'', w))\<rparr>"

section \<open>The components the spec describes\<close>

text \<open>
  The embedding stage and the local retriever live in \<^verbatim>\<open>utils\<close> and in the prompt classes,
  which are not among the sources. The definitions of this section follow the spec's
  description of them (sections 3, 4.2 and 4.3).
\<close>

text \<open>
  Modelled from the spec: the Article Record of section 3, ``id, title/date metadata, body
  text, token count, embedding vector (optional until embedding stage runs)''.
\<close>

record article =
  article_id :: nat
  title :: string
  body :: string
  token_count :: nat
  embedding :: "real list option"

text \<open>
  Modelled from the spec: the failure of the embedding provider (section 7). The second
  failure stands for a record without a vector where the spec requires an embedded corpus.
\<close>

datatype failure = EmbeddingProviderError | MissingEmbedding

text \<open>
  Modelled from the spec: the Embedding Stage, \<^verbatim>\<open>embed(corpus, embedding_client)\<close>. ``For
  every Article Record lacking an embedding, requests a vector from the embedding provider
  and attaches it. [...] Fails with EmbeddingProviderError on a provider error for any
  record.'' The client answers \<open>None\<close> on a provider error and acts on the outside world.
\<close>

fun embed ::
  "(string \<Rightarrow> 'w \<Rightarrow> real list option \<times> 'w) \<Rightarrow> article list \<Rightarrow> 'w \<Rightarrow>
   (failure + article list) \<times> 'w" where
  "embed client [] w = (Inr [], w)"
| "embed client (r # rs) w =
     (case embedding r of
        Some _ \<Rightarrow>
          (case embed client rs w of
             (Inl e, w') \<Rightarrow> (Inl e, w')
           | (Inr rs', w') \<Rightarrow> (Inr (r # rs'), w'))
      | None \<Rightarrow>
          (case client (body r) w of
             (None, w') \<Rightarrow> (Inl EmbeddingProviderError, w')
           | (Some v, w') \<Rightarrow>
               (case embed client rs w' of
                  (Inl e, w'') \<Rightarrow> (Inl e, w'')
                | (Inr rs', w'') \<Rightarrow> (Inr (r\<lparr>embedding := Some v\<rparr> # rs'), w''))))"

text \<open>Modelled from the spec: the similarity score, a dot product.\<close>

definition dot :: "real list \<Rightarrow> real list \<Rightarrow> real" where
  "dot u v = sum_list (map2 (*) u v)"

text \<open>
  Modelled from the spec: ``sorts descending by score; ties broken by original corpus order
  (stable sort)'', as an insertion sort on the negated score.
\<close>

definition ranked :: "(nat \<times> real) list \<Rightarrow> (nat \<times> real) list" where
  "ranked xs = sort_key (\<lambda>p. - snd p) xs"

text \<open>
  Modelled from the spec: the Local Similarity Retriever, \<^verbatim>\<open>retrieve(query, count, corpus)\<close>.
  ``Embeds the query text [...]. Computes a similarity score (dot product [...]) between
  the query vector and every record's vector. Sorts descending by score; ties broken by
  original corpus order (stable sort). Returns the top count entries.'' A result names a
  record by its position in the corpus. The spec takes the corpus to be embedded; a record
  without a vector is a failure here. Scores are real numbers, not floats.
\<close>

definition retrieve ::
  "(string \<Rightarrow> real list option) \<Rightarrow> string \<Rightarrow> nat \<Rightarrow> article list \<Rightarrow>
   failure + (nat \<times> real) list" where
  "retrieve embed_query query count corpus =
     (case embed_query query of
        None \<Rightarrow> Inl EmbeddingProviderError
      | Some qv \<Rightarrow>
          if list_all (\<lambda>r. embedding r \<noteq> None) corpus
          then Inr (take count
                 (ranked (map (\<lambda>(i, r). (i, dot qv (the (embedding r)))) (enumerate 0 corpus))))
          else Inl MissingEmbedding)"

text \<open>Five articles with known embeddings, two of them with the same score for the query.\<close>

definition sample_article :: "nat \<Rightarrow> real list \<Rightarrow> article" where
  "sample_article n v =
     \<lparr>article_id = n, title = ''t'', body = ''b'', token_count = 1, embedding = Some v\<rparr>"

definition sample_corpus :: "article list" where
  "sample_corpus =
     [sample_article 0 [1, 0], sample_article 1 [3, 0], sample_article 2 [0, 5],
      sample_article 3 [3, 7], sample_article 4 [2, 2]]"

definition sample_embed_query :: "string \<Rightarrow> real list option" where
  "sample_embed_query q = Some [1, 0]"

definition sample_client :: "string \<Rightarrow> nat \<Rightarrow> real list option \<times> nat" where
  "sample_client text w = (Some [1, 1], Suc w)"


text \<open>A retrieval that returned.\<close>

definition answered :: "('df, 'e) event \<Rightarrow> bool" where
  "answered ev = (is_retrieval (fst ev) \<and> snd ev = None)"

section \<open>Properties of the script\<close>

subsection \<open>Unfolding the run\<close>

lemma result_of_simp [simp]: "result_of (r, evs, s) = r" by (simp add: result_of_def)
lemma events_of_simp [simp]: "events_of (r, evs, s) = evs" by (simp add: events_of_def)
lemma final_of_simp [simp]: "final_of (r, evs, s) = s" by (simp add: final_of_def)

lemma run_triple: "x = (result_of x, events_of x, final_of x)"
  by (simp add: result_of_def events_of_def final_of_def)

lemma load_or_build_unfold:
  "load_or_build cfg ext chat s =
     (if fs s (FILENAME cfg) = None
      then (case load_data ext (URL cfg) (MAX_TOKENS cfg) (world s) of
              (Inl e, w1) \<Rightarrow>
                (Inl e, [(LoadData (URL cfg) (MAX_TOKENS cfg), Some e)], s\<lparr>world := w1\<rparr>)
            | (Inr df0, w1) \<Rightarrow>
                (case embed_df_with_openai ext df0 chat w1 of
                   (Inl e, w2) \<Rightarrow>
                     (Inl e, [(LoadData (URL cfg) (MAX_TOKENS cfg), None),
                              (EmbedDf df0 chat, Some e)], s\<lparr>world := w2\<rparr>)
                 | (Inr df1, w2) \<Rightarrow>
                     (case to_pickle ext df1 of
                        Inl e \<Rightarrow>
                          (Inl e, [(LoadData (URL cfg) (MAX_TOKENS cfg), None),
                                   (EmbedDf df0 chat, None),
                                   (ToPickle df1 (FILENAME cfg), Some e)], s\<lparr>world := w2\<rparr>)
                      | Inr f \<Rightarrow>
                          (Inr df1, [(LoadData (URL cfg) (MAX_TOKENS cfg), None),
                                     (EmbedDf df0 chat, None),
                                     (ToPickle df1 (FILENAME cfg), None)],
                           s\<lparr>world := w2, fs := (fs s)(FILENAME cfg \<mapsto> f)\<rparr>))))
      else (read_pickle ext (fs s (FILENAME cfg)),
            [(ReadPickle (FILENAME cfg), outcome (read_pickle ext (fs s (FILENAME cfg))))], s))"
  by (simp add: load_or_build_def bind_run_def extcall_def return_run_def to_pickle_file_def
      read_pickle_file_def outcome_def split: prod.splits sum.splits)

lemma topic_loop_Cons:
  "topic_loop ext chat up df (t # rest) s =
     (case chat_create ext chat (prompt_for up 3 t df) (world s) of
        (Inl e, w') \<Rightarrow>
          (Inl e, [(ChatCreate chat (prompt_for up 3 t df), Some e)], s\<lparr>world := w'\<rparr>)
      | (Inr c, w') \<Rightarrow>
          (result_of (topic_loop ext chat up df rest (s\<lparr>world := w'\<rparr>)),
           [(ChatCreate chat (prompt_for up 3 t df), None),
            (Print (str_completion ext c), None),
            (Print [CHR 0x0A], None)] @
           events_of (topic_loop ext chat up df rest (s\<lparr>world := w'\<rparr>)),
           final_of (topic_loop ext chat up df rest (s\<lparr>world := w'\<rparr>))))"
  by (cases up)
    (simp_all add: bind_run_def extcall_def return_run_def print_def prompt_for_def
      summarize_news_local_embeddings_def summarize_news_pinecone_embeddings_def outcome_def
      split: prod.splits sum.splits)

lemma bind_run_proj:
  "bind_run m k s =
     (case m s of
        (Inl e, evs, s') \<Rightarrow> (Inl e, evs, s')
      | (Inr a, evs, s') \<Rightarrow>
          (result_of (k a s'), evs @ events_of (k a s'), final_of (k a s')))"
  by (simp add: bind_run_def split: prod.splits sum.splits)

lemma main_eq:
  "main cfg ext chat up s =
     bind_run (load_or_build cfg ext chat)
       (\<lambda>df. bind_run
          (if up then extcall (SetupPinecone df) (setup_pinecone ext df) else return_run ())
          (\<lambda>_. topic_loop ext chat up df topics)) s"
  by (simp add: main_def load_or_build_def bind_run_def)

lemma main_unfold:
  "main cfg ext chat up s =
     (case load_or_build cfg ext chat s of
        (Inl e, evs0, s0) \<Rightarrow> (Inl e, evs0, s0)
      | (Inr df, evs0, s0) \<Rightarrow>
          (if up
           then (case setup_pinecone ext df (world s0) of
                   (Inl e, w) \<Rightarrow> (Inl e, evs0 @ [(SetupPinecone df, Some e)], s0\<lparr>world := w\<rparr>)
                 | (Inr u, w) \<Rightarrow>
                     (result_of (topic_loop ext chat True df topics (s0\<lparr>world := w\<rparr>)),
                      evs0 @ (SetupPinecone df, None) #
                        events_of (topic_loop ext chat True df topics (s0\<lparr>world := w\<rparr>)),
                      final_of (topic_loop ext chat True df topics (s0\<lparr>world := w\<rparr>))))
           else (result_of (topic_loop ext chat False df topics s0),
                 evs0 @ events_of (topic_loop ext chat False df topics s0),
                 final_of (topic_loop ext chat False df topics s0))))"
  by (cases up)
    (simp_all add: main_eq bind_run_proj extcall_def return_run_def outcome_def
      split: prod.splits sum.splits)

lemma topic_loop_Nil: "topic_loop ext chat up df [] s = (Inr (), [], s)"
  by (simp add: return_run_def)

lemmas loop_simps = topic_loop_Nil topic_loop_Cons

lemma loop_fs: "fs (final_of (topic_loop ext chat up df ts s)) = fs s"
  by (induction ts arbitrary: s)
    (auto simp: loop_simps simp del: topic_loop.simps split: prod.splits sum.splits)

lemma loop_calls: "list_all (\<lambda>ev. is_loop_call (fst ev)) (events_of (topic_loop ext chat up df ts s))"
  by (induction ts arbitrary: s)
    (auto simp: loop_simps simp del: topic_loop.simps split: prod.splits sum.splits)

lemma retrieval_backend_prompt_for [simp]:
  "retrieval_backend (ChatCreate chat (prompt_for up n t df)) = Some (selected up)"
  by (simp add: prompt_for_def selected_def)

lemma request_prompt_for [simp]: "request (ChatCreate chat (prompt_for up n t df)) = Some (n, t)"
  by (simp add: prompt_for_def)

lemma backends_Nil [simp]: "backends [] = []"
  by (simp add: backends_def List.map_filter_def)

lemma backends_Cons [simp]:
  "backends (ev # evs) =
     (case retrieval_backend (fst ev) of None \<Rightarrow> backends evs | Some b \<Rightarrow> b # backends evs)"
  by (simp add: backends_def List.map_filter_def split: option.splits)

lemma backends_append [simp]: "backends (xs @ ys) = backends xs @ backends ys"
  by (simp add: backends_def List.map_filter_def)

lemma requests_Nil [simp]: "requests [] = []"
  by (simp add: requests_def List.map_filter_def)

lemma requests_Cons [simp]:
  "requests (ev # evs) =
     (case request (fst ev) of None \<Rightarrow> requests evs | Some b \<Rightarrow> b # requests evs)"
  by (simp add: requests_def List.map_filter_def split: option.splits)

lemma requests_append [simp]: "requests (xs @ ys) = requests xs @ requests ys"
  by (simp add: requests_def List.map_filter_def)

lemma loop_backends:
  "list_all (\<lambda>b. b = selected up) (backends (events_of (topic_loop ext chat up df ts s)))"
  by (induction ts arbitrary: s)
    (auto simp: loop_simps simp del: topic_loop.simps split: prod.splits sum.splits)

lemma loop_backends_done:
  "result_of (topic_loop ext chat up df ts s) = Inr () \<Longrightarrow>
   backends (events_of (topic_loop ext chat up df ts s)) = replicate (length ts) (selected up)"
  by (induction ts arbitrary: s)
    (auto simp: loop_simps simp del: topic_loop.simps split: prod.splits sum.splits)

lemma loop_requests:
  "requests (events_of (topic_loop ext chat up df ts s)) =
   take (length (requests (events_of (topic_loop ext chat up df ts s)))) (map (Pair 3) ts)"
  by (induction ts arbitrary: s)
    (auto simp: loop_simps simp del: topic_loop.simps split: prod.splits sum.splits)

lemma loop_requests_done:
  "result_of (topic_loop ext chat up df ts s) = Inr () \<Longrightarrow>
   requests (events_of (topic_loop ext chat up df ts s)) = map (Pair 3) ts"
  by (induction ts arbitrary: s)
    (auto simp: loop_simps simp del: topic_loop.simps split: prod.splits sum.splits)

lemma propagates_triple:
  "propagates (r, evs, s) =
     (list_all (\<lambda>ev. snd ev = None) (butlast evs) \<and>
      (case r of Inl e \<Rightarrow> evs \<noteq> [] \<and> snd (last evs) = Some e
       | Inr _ \<Rightarrow> list_all (\<lambda>ev. snd ev = None) evs))"
  by (simp add: propagates_def split: sum.splits)

lemma propagates_Cons:
  "propagates (r, evs, s) \<Longrightarrow> propagates (r, (c, None) # evs, s')"
  by (cases evs) (auto simp: propagates_triple split: sum.splits)

lemma propagates_append:
  assumes "list_all (\<lambda>ev. snd ev = None) evs0" and "propagates (r, evs, s)"
  shows "propagates (r, evs0 @ evs, s')"
  using assms(1)
proof (induction evs0)
  case Nil
  from assms(2) show ?case by (simp add: propagates_triple)
next
  case (Cons a evs0)
  then obtain c where a: "a = (c, None)" by (cases a) auto
  from Cons have "propagates (r, evs0 @ evs, s')" by simp
  then have "propagates (r, (c, None) # evs0 @ evs, s')" by (rule propagates_Cons)
  with a show ?case by simp
qed

lemma loop_propagates: "propagates (topic_loop ext chat up df ts s)"
proof (induction ts arbitrary: s)
  case Nil
  show ?case by (simp add: return_run_def propagates_triple)
next
  case (Cons t ts)
  show ?case
  proof (cases "chat_create ext chat (prompt_for up 3 t df) (world s)")
    case (Pair r w')
    show ?thesis
    proof (cases r)
      case (Inl e)
      with Pair show ?thesis by (simp add: topic_loop_Cons propagates_triple del: topic_loop.simps)
    next
      case (Inr c)
      have "propagates (result_of (topic_loop ext chat up df ts (s\<lparr>world := w'\<rparr>)),
          events_of (topic_loop ext chat up df ts (s\<lparr>world := w'\<rparr>)),
          final_of (topic_loop ext chat up df ts (s\<lparr>world := w'\<rparr>)))"
        using Cons.IH[of "s\<lparr>world := w'\<rparr>"] run_triple[of "topic_loop ext chat up df ts (s\<lparr>world := w'\<rparr>)"]
        by simp
      then have "propagates (result_of (topic_loop ext chat up df ts (s\<lparr>world := w'\<rparr>)),
          (ChatCreate chat (prompt_for up 3 t df), None) #
          (Print (str_completion ext c), None) # (Print [CHR 0x0A], None) #
          events_of (topic_loop ext chat up df ts (s\<lparr>world := w'\<rparr>)),
          final_of (topic_loop ext chat up df ts (s\<lparr>world := w'\<rparr>)))"
        by (intro propagates_Cons)
      with Pair Inr show ?thesis by (simp add: topic_loop_Cons del: topic_loop.simps)
    qed
  qed
qed


lemma topics_three: "topics = [topics ! 0, topics ! 1, topics ! 2]"
  by (simp add: topics_def)

lemma replicate_topics: "replicate (length topics) x = [x, x, x]"
  by (simp add: topics_def)

lemma lob_quiet:
  "load_or_build cfg ext chat s = (r, evs0, s0) \<Longrightarrow>
   list_all (\<lambda>ev. \<not> is_loop_call (fst ev) \<and> \<not> is_provision (fst ev)) evs0"
  by (auto simp: load_or_build_unfold split: if_splits prod.splits sum.splits)

lemma lob_backends: "load_or_build cfg ext chat s = (r, evs0, s0) \<Longrightarrow> backends evs0 = []"
  by (auto simp: load_or_build_unfold split: if_splits prod.splits sum.splits)

lemma lob_requests: "load_or_build cfg ext chat s = (r, evs0, s0) \<Longrightarrow> requests evs0 = []"
  by (auto simp: load_or_build_unfold split: if_splits prod.splits sum.splits)

lemma lob_propagates: "propagates (load_or_build cfg ext chat s)"
  by (auto simp: load_or_build_unfold propagates_triple outcome_def split: if_splits prod.splits sum.splits)

lemma lob_ok_events:
  "load_or_build cfg ext chat s = (Inr df, evs0, s0) \<Longrightarrow> list_all (\<lambda>ev. snd ev = None) evs0"
  using lob_propagates[of cfg ext chat s] by (simp add: propagates_triple)

lemma main_backends:
  "list_all (\<lambda>b. b = selected up) (backends (events_of (main cfg ext chat up s))) \<and>
   (result_of (main cfg ext chat up s) = Inr () \<longrightarrow>
      backends (events_of (main cfg ext chat up s)) = [selected up, selected up, selected up])"
proof -
  obtain r0 evs0 s0 where L: "load_or_build cfg ext chat s = (r0, evs0, s0)"
    by (metis prod_cases3)
  note B = lob_backends[OF L]
  show ?thesis
    by (cases r0; cases up)
      (simp_all add: main_unfold L B loop_backends loop_backends_done replicate_topics
        split: prod.splits sum.splits)
qed

lemma propagates_main: "propagates (main cfg ext chat up s)"
proof -
  obtain r0 evs0 s0 where L: "load_or_build cfg ext chat s = (r0, evs0, s0)"
    by (metis prod_cases3)
  have P0: "propagates (r0, evs0, s0)" using lob_propagates[of cfg ext chat s] L by simp
  show ?thesis
  proof (cases r0)
    case (Inl e)
    with L P0 show ?thesis by (simp add: main_unfold propagates_triple)
  next
    case (Inr df)
    with L have ok: "list_all (\<lambda>ev. snd ev = None) evs0" by (simp add: lob_ok_events)
    show ?thesis
    proof (cases up)
      case False
      have "propagates (result_of (topic_loop ext chat False df topics s0),
          events_of (topic_loop ext chat False df topics s0),
          final_of (topic_loop ext chat False df topics s0))"
        using loop_propagates[of ext chat False df topics s0]
          run_triple[of "topic_loop ext chat False df topics s0"] by simp
      from propagates_append[OF ok this] False Inr L show ?thesis
        by (simp add: main_unfold)
    next
      case True
      obtain r1 w where S: "setup_pinecone ext df (world s0) = (r1, w)" by (cases "setup_pinecone ext df (world s0)")
      show ?thesis
      proof (cases r1)
        case (Inl e)
        then have "propagates (r1, [(SetupPinecone df, Some e)], s0\<lparr>world := w\<rparr>)"
          by (simp add: propagates_triple)
        from propagates_append[OF ok this] True Inr Inl L S show ?thesis
          by (simp add: main_unfold)
      next
        case (Inr u)
        let ?T = "topic_loop ext chat True df topics (s0\<lparr>world := w\<rparr>)"
        have "propagates (result_of ?T, events_of ?T, final_of ?T)"
          using loop_propagates[of ext chat True df topics "s0\<lparr>world := w\<rparr>"] run_triple[of ?T] by simp
        then have "propagates (result_of ?T, (SetupPinecone df, None) # events_of ?T, final_of ?T)"
          by (rule propagates_Cons)
        from propagates_append[OF ok this] True \<open>r0 = Inr df\<close> Inr L S show ?thesis
          by (simp add: main_unfold)
      qed
    qed
  qed
qed

lemma lob_fs_present:
  "fs s (FILENAME cfg) \<noteq> None \<Longrightarrow> load_or_build cfg ext chat s = (r, evs0, s0) \<Longrightarrow>
   s0 = s \<and> evs0 = [(ReadPickle (FILENAME cfg), outcome (read_pickle ext (fs s (FILENAME cfg))))]"
  by (auto simp: load_or_build_unfold)

lemma lob_fs_other:
  "load_or_build cfg ext chat s = (r, evs0, s0) \<Longrightarrow> p \<noteq> FILENAME cfg \<Longrightarrow> fs s0 p = fs s p"
  by (auto simp: load_or_build_unfold split: if_splits prod.splits sum.splits)

lemma main_final_fs:
  "load_or_build cfg ext chat s = (r0, evs0, s0) \<Longrightarrow> fs (final_of (main cfg ext chat up s)) = fs s0"
  by (cases r0; cases up) (simp_all add: main_unfold loop_fs split: prod.splits sum.splits)

lemma list_all_loop_weaken:
  "(\<And>c. is_loop_call c \<Longrightarrow> P c) \<Longrightarrow>
   list_all (\<lambda>ev. P (fst ev)) (events_of (topic_loop ext chat up df ts s))"
  using loop_calls[of ext chat up df ts s] by (auto simp: list_all_iff)

text \<open>
  Claim C9. \<^verbatim>\<open>main\<close> never overwrites or deletes an existing snapshot: when the file is
  there at the start, the run writes nothing and leaves the whole file system as it was.
  In every run, no path other than the snapshot's changes.
\<close>

theorem main_keeps_snapshot:
  "(fs s (FILENAME cfg) \<noteq> None \<longrightarrow>
      fs (final_of (main cfg ext chat up s)) = fs s \<and>
      list_all (\<lambda>ev. \<not> is_write (fst ev)) (events_of (main cfg ext chat up s))) \<and>
   (\<forall>p. p \<noteq> FILENAME cfg \<longrightarrow> fs (final_of (main cfg ext chat up s)) p = fs s p)"
proof -
  obtain r0 evs0 s0 where L: "load_or_build cfg ext chat s = (r0, evs0, s0)"
    by (metis prod_cases3)
  have W: "\<And>df up s. list_all (\<lambda>ev. \<not> is_write (fst ev)) (events_of (topic_loop ext chat up df topics s))"
    by (rule list_all_loop_weaken) (auto elim: is_loop_call.elims)
  have "fs s (FILENAME cfg) \<noteq> None \<Longrightarrow>
      list_all (\<lambda>ev. \<not> is_write (fst ev)) (events_of (main cfg ext chat up s))"
    using lob_fs_present[OF _ L]
    by (cases r0; cases up) (auto simp: main_unfold L W split: prod.splits sum.splits)
  then show ?thesis
    using main_final_fs[OF L, of up] lob_fs_present[OF _ L] lob_fs_other[OF L] by auto
qed


lemma corpus_of_prompt_for [simp]: "corpus_of (ChatCreate chat (prompt_for up n t df)) = Some df"
  by (simp add: prompt_for_def)

lemma loop_corpus:
  "list_all (\<lambda>ev. corpus_of (fst ev) = None \<or> corpus_of (fst ev) = Some df)
     (events_of (topic_loop ext chat up df ts s))"
  by (induction ts arbitrary: s)
    (auto simp: loop_simps simp del: topic_loop.simps split: prod.splits sum.splits)

lemma main_events_present:
  assumes "fs s (FILENAME cfg) \<noteq> None"
  shows "\<exists>rest. events_of (main cfg ext chat up s) =
           (ReadPickle (FILENAME cfg), outcome (read_pickle ext (fs s (FILENAME cfg)))) # rest \<and>
         list_all (\<lambda>ev. \<not> is_build (fst ev) \<and> \<not> is_write (fst ev) \<and> \<not> is_read (fst ev) \<and>
            (\<forall>df. corpus_of (fst ev) = Some df \<longrightarrow> read_pickle ext (fs s (FILENAME cfg)) = Inr df)) rest"
proof -
  have W: "\<And>df up s. list_all (\<lambda>ev. \<not> is_build (fst ev) \<and> \<not> is_write (fst ev) \<and> \<not> is_read (fst ev))
      (events_of (topic_loop ext chat up df topics s))"
    by (rule list_all_loop_weaken) (auto elim: is_loop_call.elims)
  have C: "\<And>df up s. list_all (\<lambda>ev. \<not> is_build (fst ev) \<and> \<not> is_write (fst ev) \<and> \<not> is_read (fst ev) \<and>
       (\<forall>d. corpus_of (fst ev) = Some d \<longrightarrow> d = df))
      (events_of (topic_loop ext chat up df topics s))"
    using W loop_corpus by (fastforce simp: list_all_iff)
  have L: "load_or_build cfg ext chat s = (read_pickle ext (fs s (FILENAME cfg)),
      [(ReadPickle (FILENAME cfg), outcome (read_pickle ext (fs s (FILENAME cfg))))], s)"
    using assms by (auto simp: load_or_build_unfold)
  show ?thesis
  proof (cases "read_pickle ext (fs s (FILENAME cfg))")
    case (Inl e)
    with L show ?thesis by (simp add: main_unfold)
  next
    case (Inr df)
    with L C[of df] show ?thesis
      by (cases up) (force simp: main_unfold list_all_iff split: prod.splits sum.splits)+
  qed
qed

lemma main_events_absent:
  assumes "fs s (FILENAME cfg) = None"
    and "load_data ext (URL cfg) (MAX_TOKENS cfg) (world s) = (Inr df0, w1)"
    and "embed_df_with_openai ext df0 chat w1 = (Inr df1, w2)"
    and "to_pickle ext df1 = Inr f"
  shows "\<exists>rest. events_of (main cfg ext chat up s) =
           (LoadData (URL cfg) (MAX_TOKENS cfg), None) # (EmbedDf df0 chat, None) #
           (ToPickle df1 (FILENAME cfg), None) # rest \<and>
         list_all (\<lambda>ev. \<not> is_build (fst ev) \<and> \<not> is_write (fst ev) \<and> \<not> is_read (fst ev) \<and>
            (\<forall>df. corpus_of (fst ev) = Some df \<longrightarrow> df = df1)) rest"
    and "fs (final_of (main cfg ext chat up s)) = (fs s)(FILENAME cfg \<mapsto> f)"
proof -
  have W: "\<And>df up s. list_all (\<lambda>ev. \<not> is_build (fst ev) \<and> \<not> is_write (fst ev) \<and> \<not> is_read (fst ev))
      (events_of (topic_loop ext chat up df topics s))"
    by (rule list_all_loop_weaken) (auto elim: is_loop_call.elims)
  have C: "\<And>df up s. list_all (\<lambda>ev. \<not> is_build (fst ev) \<and> \<not> is_write (fst ev) \<and> \<not> is_read (fst ev) \<and>
       (\<forall>d. corpus_of (fst ev) = Some d \<longrightarrow> d = df))
      (events_of (topic_loop ext chat up df topics s))"
    using W loop_corpus by (fastforce simp: list_all_iff)
  have L: "load_or_build cfg ext chat s = (Inr df1,
      [(LoadData (URL cfg) (MAX_TOKENS cfg), None), (EmbedDf df0 chat, None),
       (ToPickle df1 (FILENAME cfg), None)], s\<lparr>world := w2, fs := (fs s)(FILENAME cfg \<mapsto> f)\<rparr>)"
    using assms by (simp add: load_or_build_unfold)
  show "\<exists>rest. events_of (main cfg ext chat up s) =
           (LoadData (URL cfg) (MAX_TOKENS cfg), None) # (EmbedDf df0 chat, None) #
           (ToPickle df1 (FILENAME cfg), None) # rest \<and>
         list_all (\<lambda>ev. \<not> is_build (fst ev) \<and> \<not> is_write (fst ev) \<and> \<not> is_read (fst ev) \<and>
            (\<forall>df. corpus_of (fst ev) = Some df \<longrightarrow> df = df1)) rest"
    using L C[of df1]
    by (cases up) (force simp: main_unfold list_all_iff split: prod.splits sum.splits)+
  show "fs (final_of (main cfg ext chat up s)) = (fs s)(FILENAME cfg \<mapsto> f)"
    using main_final_fs[OF L] by simp
qed

lemma retrieval_is_loop_call: "is_retrieval c \<Longrightarrow> is_loop_call c"
  by (cases c) simp_all

lemma main_events_absent_failed:
  assumes "fs s (FILENAME cfg) = None"
    and "list_ex (\<lambda>ev. is_retrieval (fst ev) \<or> is_provision (fst ev)) (events_of (main cfg ext chat up s))"
  shows "\<exists>df0 w1 df1 w2 f. load_data ext (URL cfg) (MAX_TOKENS cfg) (world s) = (Inr df0, w1) \<and>
     embed_df_with_openai ext df0 chat w1 = (Inr df1, w2) \<and> to_pickle ext df1 = Inr f"
proof -
  obtain r0 evs0 s0 where L: "load_or_build cfg ext chat s = (r0, evs0, s0)"
    by (metis prod_cases3)
  have Q: "list_all (\<lambda>ev. \<not> is_retrieval (fst ev) \<and> \<not> is_provision (fst ev)) evs0"
    using lob_quiet[OF L] retrieval_is_loop_call by (fastforce simp: list_all_iff)
  have "\<exists>df. r0 = Inr df"
  proof (cases r0)
    case (Inl e)
    with L Q assms(2) show ?thesis by (auto simp: main_unfold list_all_iff list_ex_iff)
  qed simp
  with L assms(1) show ?thesis
    by (auto simp: load_or_build_unfold split: prod.splits sum.splits)
qed


subsection \<open>The claims about the cache\<close>

lemmas sample_defs = sample_cfg_def sample_ext_def sample_chat_def fresh_def cached_def

lemma sample_run_hosted:
  "main sample_cfg sample_ext sample_chat True fresh =
     (Inr (),
      [(LoadData ''http://news'' 1000, None),
       (EmbedDf 10 \<lparr>api_key = Some ''sk''\<rparr>, None),
       (ToPickle 11 ''news.pkl'', None),
       (SetupPinecone 11, None),
       (ChatCreate \<lparr>api_key = Some ''sk''\<rparr> (PineconeNewsRagPrompt 3 (topics ! 0) 11), None),
       (Print ''summary'', None), (Print [CHR 0x0A], None),
       (ChatCreate \<lparr>api_key = Some ''sk''\<rparr> (PineconeNewsRagPrompt 3 (topics ! 1) 11), None),
       (Print ''summary'', None), (Print [CHR 0x0A], None),
       (ChatCreate \<lparr>api_key = Some ''sk''\<rparr> (PineconeNewsRagPrompt 3 (topics ! 2) 11), None),
       (Print ''summary'', None), (Print [CHR 0x0A], None)],
      \<lparr>world = 6, fs = [''news.pkl'' \<mapsto> 11]\<rparr>)"
  by (simp add: main_unfold load_or_build_unfold loop_simps topics_def sample_defs prompt_for_def
      del: topic_loop.simps)

lemma sample_run_local:
  "main sample_cfg sample_ext sample_chat False cached =
     (Inr (),
      [(ReadPickle ''news.pkl'', None),
       (ChatCreate \<lparr>api_key = Some ''sk''\<rparr> (LocalNewsRagPrompt 3 (topics ! 0) 7), None),
       (Print ''summary'', None), (Print [CHR 0x0A], None),
       (ChatCreate \<lparr>api_key = Some ''sk''\<rparr> (LocalNewsRagPrompt 3 (topics ! 1) 7), None),
       (Print ''summary'', None), (Print [CHR 0x0A], None),
       (ChatCreate \<lparr>api_key = Some ''sk''\<rparr> (LocalNewsRagPrompt 3 (topics ! 2) 7), None),
       (Print ''summary'', None), (Print [CHR 0x0A], None)],
      \<lparr>world = 3, fs = [''news.pkl'' \<mapsto> 7]\<rparr>)"
  by (simp add: main_unfold load_or_build_unfold loop_simps topics_def sample_defs prompt_for_def
      outcome_def del: topic_loop.simps)

lemma main_events_absent_first:
  assumes "fs s (FILENAME cfg) = None"
  shows "\<exists>out rest. events_of (main cfg ext chat up s) =
           (LoadData (URL cfg) (MAX_TOKENS cfg), out) # rest \<and>
         list_all (\<lambda>ev. \<not> is_read (fst ev)) rest"
proof -
  have W: "\<And>df up s. list_all (\<lambda>ev. \<not> is_read (fst ev))
      (events_of (topic_loop ext chat up df topics s))"
    by (rule list_all_loop_weaken) (auto elim: is_loop_call.elims)
  obtain r0 evs0 s0 where L: "load_or_build cfg ext chat s = (r0, evs0, s0)"
    by (metis prod_cases3)
  from L assms have E: "\<exists>out rest. evs0 = (LoadData (URL cfg) (MAX_TOKENS cfg), out) # rest \<and>
      list_all (\<lambda>ev. \<not> is_read (fst ev)) rest"
    by (auto simp: load_or_build_unfold split: prod.splits sum.splits)
  then obtain out rest0 where evs0: "evs0 = (LoadData (URL cfg) (MAX_TOKENS cfg), out) # rest0"
    and R0: "list_all (\<lambda>ev. \<not> is_read (fst ev)) rest0" by blast
  show ?thesis
    using L R0 W unfolding evs0
    by (cases r0; cases up) (auto simp: main_unfold split: prod.splits sum.splits)
qed

text \<open>
  Claim C1. The presence of the snapshot file alone decides how \<^verbatim>\<open>main\<close> gets its corpus.
  When the file is there, the first call of the run reads it, the run neither fetches nor
  embeds nor writes, and every later call works on the dataframe that was read. When the
  file is not there, the first call fetches the data and nothing is read; if fetching,
  embedding and pickling succeed, these are the first three calls of the run, the embedded
  dataframe is in the file afterwards and every later call works on it; and a run that
  reaches provisioning or a retrieval has fetched, embedded and persisted before.
\<close>

theorem main_cache_decision:
  "(fs s (FILENAME cfg) \<noteq> None \<longrightarrow>
      (\<exists>rest. events_of (main cfg ext chat up s) =
           (ReadPickle (FILENAME cfg), outcome (read_pickle ext (fs s (FILENAME cfg)))) # rest \<and>
         list_all (\<lambda>ev. \<not> is_build (fst ev) \<and> \<not> is_write (fst ev) \<and> \<not> is_read (fst ev) \<and>
            (\<forall>df. corpus_of (fst ev) = Some df \<longrightarrow>
               read_pickle ext (fs s (FILENAME cfg)) = Inr df)) rest)) \<and>
   (fs s (FILENAME cfg) = None \<longrightarrow>
      (\<exists>out rest. events_of (main cfg ext chat up s) =
           (LoadData (URL cfg) (MAX_TOKENS cfg), out) # rest \<and>
         list_all (\<lambda>ev. \<not> is_read (fst ev)) rest) \<and>
      (\<forall>df0 w1 df1 w2 f.
         load_data ext (URL cfg) (MAX_TOKENS cfg) (world s) = (Inr df0, w1) \<longrightarrow>
         embed_df_with_openai ext df0 chat w1 = (Inr df1, w2) \<longrightarrow>
         to_pickle ext df1 = Inr f \<longrightarrow>
           (\<exists>rest. events_of (main cfg ext chat up s) =
              (LoadData (URL cfg) (MAX_TOKENS cfg), None) # (EmbedDf df0 chat, None) #
              (ToPickle df1 (FILENAME cfg), None) # rest \<and>
              list_all (\<lambda>ev. \<not> is_build (fst ev) \<and> \<not> is_write (fst ev) \<and>
                 \<not> is_read (fst ev) \<and>
                 (\<forall>df. corpus_of (fst ev) = Some df \<longrightarrow> df = df1)) rest) \<and>
           fs (final_of (main cfg ext chat up s)) = (fs s)(FILENAME cfg \<mapsto> f)) \<and>
      (list_ex (\<lambda>ev. is_retrieval (fst ev) \<or> is_provision (fst ev))
           (events_of (main cfg ext chat up s)) \<longrightarrow>
         (\<exists>df0 w1 df1 w2 f.
            load_data ext (URL cfg) (MAX_TOKENS cfg) (world s) = (Inr df0, w1) \<and>
            embed_df_with_openai ext df0 chat w1 = (Inr df1, w2) \<and>
            to_pickle ext df1 = Inr f)))"
proof (intro conjI impI allI)
  assume "fs s (FILENAME cfg) \<noteq> None"
  then show "\<exists>rest. events_of (main cfg ext chat up s) =
           (ReadPickle (FILENAME cfg), outcome (read_pickle ext (fs s (FILENAME cfg)))) # rest \<and>
         list_all (\<lambda>ev. \<not> is_build (fst ev) \<and> \<not> is_write (fst ev) \<and> \<not> is_read (fst ev) \<and>
            (\<forall>df. corpus_of (fst ev) = Some df \<longrightarrow>
               read_pickle ext (fs s (FILENAME cfg)) = Inr df)) rest"
    by (rule main_events_present)
next
  assume "fs s (FILENAME cfg) = None"
  then show "\<exists>out rest. events_of (main cfg ext chat up s) =
           (LoadData (URL cfg) (MAX_TOKENS cfg), out) # rest \<and>
         list_all (\<lambda>ev. \<not> is_read (fst ev)) rest"
    by (rule main_events_absent_first)
next
  fix df0 w1 df1 w2 f
  assume "fs s (FILENAME cfg) = None"
    "load_data ext (URL cfg) (MAX_TOKENS cfg) (world s) = (Inr df0, w1)"
    "embed_df_with_openai ext df0 chat w1 = (Inr df1, w2)" "to_pickle ext df1 = Inr f"
  then show "\<exists>rest. events_of (main cfg ext chat up s) =
              (LoadData (URL cfg) (MAX_TOKENS cfg), None) # (EmbedDf df0 chat, None) #
              (ToPickle df1 (FILENAME cfg), None) # rest \<and>
              list_all (\<lambda>ev. \<not> is_build (fst ev) \<and> \<not> is_write (fst ev) \<and>
                 \<not> is_read (fst ev) \<and>
                 (\<forall>df. corpus_of (fst ev) = Some df \<longrightarrow> df = df1)) rest"
    by (rule main_events_absent(1))
next
  fix df0 w1 df1 w2 f
  assume "fs s (FILENAME cfg) = None"
    "load_data ext (URL cfg) (MAX_TOKENS cfg) (world s) = (Inr df0, w1)"
    "embed_df_with_openai ext df0 chat w1 = (Inr df1, w2)" "to_pickle ext df1 = Inr f"
  then show "fs (final_of (main cfg ext chat up s)) = (fs s)(FILENAME cfg \<mapsto> f)"
    by (rule main_events_absent(2))
next
  assume "fs s (FILENAME cfg) = None"
    "list_ex (\<lambda>ev. is_retrieval (fst ev) \<or> is_provision (fst ev))
           (events_of (main cfg ext chat up s))"
  then show "\<exists>df0 w1 df1 w2 f.
            load_data ext (URL cfg) (MAX_TOKENS cfg) (world s) = (Inr df0, w1) \<and>
            embed_df_with_openai ext df0 chat w1 = (Inr df1, w2) \<and>
            to_pickle ext df1 = Inr f"
    by (rule main_events_absent_failed)
qed

theorem main_cache_decision_witness:
  "fs (final_of (main sample_cfg sample_ext sample_chat True fresh)) ''news.pkl'' = Some 11 \<and>
   take 1 (events_of (main sample_cfg sample_ext sample_chat False cached)) =
     [(ReadPickle ''news.pkl'', None)]"
proof -
  have a: "fs fresh (FILENAME sample_cfg) = None" by (simp add: sample_defs)
  have b: "load_data sample_ext (URL sample_cfg) (MAX_TOKENS sample_cfg) (world fresh) = (Inr 10, 1)"
    by (simp add: sample_defs)
  have c: "embed_df_with_openai sample_ext 10 sample_chat 1 = (Inr 11, 2)"
    by (simp add: sample_defs)
  have d: "to_pickle sample_ext 11 = Inr 11" by (simp add: sample_defs)
  have e: "fs cached (FILENAME sample_cfg) \<noteq> None" by (simp add: sample_defs)
  from main_cache_decision [of fresh sample_cfg sample_ext sample_chat True] a b c d
  have "fs (final_of (main sample_cfg sample_ext sample_chat True fresh)) =
      (fs fresh)(FILENAME sample_cfg \<mapsto> 11)" by blast
  moreover from main_cache_decision [of cached sample_cfg sample_ext sample_chat False] e
  have "\<exists>rest. events_of (main sample_cfg sample_ext sample_chat False cached) =
      (ReadPickle (FILENAME sample_cfg),
       outcome (read_pickle sample_ext (fs cached (FILENAME sample_cfg)))) # rest" by blast
  ultimately show ?thesis by (auto simp: sample_defs outcome_def)
qed

text \<open>Two runs in the small world: one builds the snapshot, one finds it.\<close>

theorem main_keeps_snapshot_witness:
  "fs (final_of (main sample_cfg sample_ext sample_chat False cached)) = fs cached"
  using main_keeps_snapshot [of cached sample_cfg sample_ext sample_chat False]
  by (simp add: sample_cfg_def cached_def)

subsection \<open>Reading the command line\<close>

lemma lookup_parser:
  "lookup parser tok =
     (if tok = ''-h'' \<or> tok = ''--help'' then Some Help
      else if tok = ''-pc'' \<or> tok = ''--pinecone'' then Some StoreTrue
      else None)"
  by (simp add: lookup_def parser_def ArgumentParser_def add_argument_def)

lemma lookup_arg:
  "lookup p tok = Some a \<Longrightarrow> \<exists>arg\<in>set p. act arg = a \<and> tok \<in> set (option_strings arg)"
  by (auto simp: lookup_def find_Some_iff)

lemma startswith_prefixes: "startswith opt tok \<longleftrightarrow> tok \<in> set (prefixes opt)"
proof
  assume "startswith opt tok"
  then have "take (length tok) opt = tok" by (simp add: startswith_def)
  then have "prefix tok opt" by (metis take_is_prefix)
  then show "tok \<in> set (prefixes opt)" by simp
next
  assume "tok \<in> set (prefixes opt)"
  then have "prefix tok opt" by simp
  then obtain zs where "opt = tok @ zs" by (auto simp: prefix_def)
  then show "startswith opt tok" by (simp add: startswith_def)
qed

lemma partition_eq_None: "snd (partition_eq tok) = None \<Longrightarrow> fst (partition_eq tok) = tok"
  by (auto simp: partition_eq_def takeWhile_eq_all_conv split: if_splits)

lemma option_tuples_abbreviation:
  assumes "(a, None, b) \<in> set (option_tuples p tok)"
  shows "\<exists>arg\<in>set p. act arg = a \<and> (\<exists>opt\<in>set (option_strings arg). startswith opt tok)"
proof (cases "take 2 tok = ''--''")
  case True
  with assms obtain arg opt where "arg \<in> set p" "opt \<in> set (option_strings arg)"
    "startswith opt (fst (partition_eq tok))" "act arg = a" "snd (partition_eq tok) = None"
    by (auto simp: option_tuples_def)
  then show ?thesis using partition_eq_None[of tok] by auto
next
  case False
  with assms show ?thesis
    by (auto simp: option_tuples_def split: if_splits)
qed

lemma option_tuples_head:
  assumes "(a, Some x, True) \<in> set (option_tuples p tok)"
  shows "\<exists>arg\<in>set p. act arg = a \<and> take 2 tok \<in> set (option_strings arg)"
  using assms by (auto simp: option_tuples_def split: if_splits)

lemma parse_optional_Matched:
  assumes "parse_optional p tok = Matched a"
  shows "\<exists>arg\<in>set p. act arg = a \<and> (\<exists>opt\<in>set (option_strings arg). startswith opt tok)"
proof -
  from assms consider (exact) "lookup p tok = Some a"
    | (abbr) b where "option_tuples p tok = [(a, None, b)]"
    by (auto simp: parse_optional_def
        split: if_splits option.splits list.splits prod.splits)
  then show ?thesis
  proof cases
    case exact
    from lookup_arg[OF exact] obtain arg where
      "arg \<in> set p" "act arg = a" "tok \<in> set (option_strings arg)" by blast
    moreover have "startswith tok tok" by (simp add: startswith_def)
    ultimately show ?thesis by blast
  next
    case abbr
    then have "(a, None, b) \<in> set (option_tuples p tok)" by simp
    then show ?thesis by (rule option_tuples_abbreviation)
  qed
qed

lemma cluster_head: "cluster p a x = Some (as, left) \<Longrightarrow> a \<in> set as"
  by (cases x) (auto split: if_splits option.splits)

lemma parse_optional_Cluster:
  assumes "parse_optional parser tok = Cluster as left"
  shows "Help \<in> set as"
proof -
  from assms obtain a x where T: "option_tuples parser tok = [(a, Some x, True)]"
    and C: "cluster parser a x = Some (as, left)"
    by (auto simp: parse_optional_def
        split: if_splits option.splits list.splits prod.splits)
  from T have "(a, Some x, True) \<in> set (option_tuples parser tok)" by simp
  from option_tuples_head[OF this] obtain arg where
    arg: "arg \<in> set parser" "act arg = a" "take 2 tok \<in> set (option_strings arg)"
    by blast
  have "take 2 tok \<noteq> x" if "2 < length x" for x
    using that by (metis length_take min.cobounded2 not_less)
  then have "take 2 tok \<noteq> ''-pc''" and "take 2 tok \<noteq> ''--pinecone''" by simp_all
  with arg have "a = Help"
    by (auto simp: parser_def ArgumentParser_def add_argument_def)
  with cluster_head[OF C] show ?thesis by simp
qed

lemma parse_optional_spellings:
  "list_all (\<lambda>tok. parse_optional parser tok = Matched StoreTrue) pinecone_spellings"
  by (simp add: pinecone_spellings_def parse_optional_def lookup_def option_tuples_def
      partition_eq_def startswith_def parser_def ArgumentParser_def add_argument_def)

lemma parse_optional_edge:
  "parse_optional parser [] = Positional"
  "parse_optional parser ''-'' = Positional"
  "parse_optional parser ''--'' = Ambiguous"
  by (simp_all add: parse_optional_def lookup_def option_tuples_def
      partition_eq_def startswith_def parser_def ArgumentParser_def add_argument_def)

lemma prefixes_pc: "prefixes ''-pc'' = [[], ''-'', ''-p'', ''-pc'']"
  by simp

lemma prefixes_pinecone:
  "prefixes ''--pinecone'' =
     [[], ''-'', ''--'', ''--p'', ''--pi'', ''--pin'', ''--pine'', ''--pinec'', ''--pineco'',
      ''--pinecon'', ''--pinecone'']"
  by simp

lemma parse_optional_flag:
  "parse_optional parser tok = Matched StoreTrue \<longleftrightarrow> tok \<in> set pinecone_spellings"
proof
  assume M: "parse_optional parser tok = Matched StoreTrue"
  from parse_optional_Matched[OF M] obtain arg opt where
    "arg \<in> set parser" "act arg = StoreTrue" "opt \<in> set (option_strings arg)" "startswith opt tok"
    by blast
  then have "startswith ''-pc'' tok \<or> startswith ''--pinecone'' tok"
    by (auto simp: parser_def ArgumentParser_def add_argument_def)
  then have "tok \<in> set (prefixes ''-pc'') \<or> tok \<in> set (prefixes ''--pinecone'')"
    by (simp only: startswith_prefixes)
  then have "tok \<in> set [[], ''-'', ''-p'', ''-pc''] \<or>
      tok \<in> set [[], ''-'', ''--'', ''--p'', ''--pi'', ''--pin'', ''--pine'', ''--pinec'',
        ''--pineco'', ''--pinecon'', ''--pinecone'']"
    by (simp only: prefixes_pc prefixes_pinecone)
  then have "tok \<in> set ([[], ''-'', ''--''] @ pinecone_spellings)"
    by (auto simp: pinecone_spellings_def)
  with M parse_optional_edge show "tok \<in> set pinecone_spellings" by auto
next
  assume "tok \<in> set pinecone_spellings"
  with parse_optional_spellings show "parse_optional parser tok = Matched StoreTrue"
    by (simp add: list_all_iff)
qed

lemma consume_accept:
  "consume rs flag extras = Inr args \<Longrightarrow>
   \<not> extras \<and> list_all (\<lambda>r. r = Matched StoreTrue \<or> (\<exists>as. r = Cluster as False \<and> Help \<notin> set as)) rs"
  by (induction rs flag extras rule: consume.induct) (auto split: if_splits)

lemma consume_flags:
  "list_all (\<lambda>r. r = Matched StoreTrue) rs \<Longrightarrow>
   consume rs flag False = Inr \<lparr>pinecone = (flag \<or> rs \<noteq> [])\<rparr>"
  by (induction rs arbitrary: flag) auto

lemma marker_not_flag: "''--'' \<notin> set pinecone_spellings"
  by (simp add: pinecone_spellings_def)

lemma parse_args_accept:
  "parse_args parser argv = Inr args \<longleftrightarrow>
   list_all (\<lambda>tok. tok \<in> set pinecone_spellings) argv \<and> args = \<lparr>pinecone = (argv \<noteq> [])\<rparr>"
proof
  let ?opts = "takeWhile (\<lambda>tok. tok \<noteq> ''--'') argv"
  let ?rest = "dropWhile (\<lambda>tok. tok \<noteq> ''--'') argv"
  assume A: "parse_args parser argv = Inr args"
  then have C: "consume (map (parse_optional parser) ?opts) False (?rest \<noteq> []) = Inr args"
    by (simp add: parse_args_def Let_def split: if_splits)
  from consume_accept[OF C] have "\<not> (?rest \<noteq> [])"
    and R: "list_all (\<lambda>r. r = Matched StoreTrue \<or> (\<exists>as. r = Cluster as False \<and> Help \<notin> set as))
        (map (parse_optional parser) ?opts)"
    by blast+
  then have rest: "?rest = []" by blast
  then have opts: "?opts = argv" by (metis append_Nil2 takeWhile_dropWhile_id)
  have M: "parse_optional parser tok = Matched StoreTrue" if "tok \<in> set argv" for tok
  proof -
    from R that opts have "parse_optional parser tok = Matched StoreTrue \<or>
        (\<exists>as. parse_optional parser tok = Cluster as False \<and> Help \<notin> set as)"
      by (auto simp: list_all_iff)
    with parse_optional_Cluster[of tok] show ?thesis by blast
  qed
  then have S: "list_all (\<lambda>tok. tok \<in> set pinecone_spellings) argv"
    by (simp add: list_all_iff parse_optional_flag)
  from M have "list_all (\<lambda>r. r = Matched StoreTrue) (map (parse_optional parser) argv)"
    by (simp add: list_all_iff)
  from consume_flags[OF this, of False] C
  have "args = \<lparr>pinecone = (argv \<noteq> [])\<rparr>" unfolding opts rest by simp
  with S show "list_all (\<lambda>tok. tok \<in> set pinecone_spellings) argv \<and>
      args = \<lparr>pinecone = (argv \<noteq> [])\<rparr>" by simp
next
  assume B: "list_all (\<lambda>tok. tok \<in> set pinecone_spellings) argv \<and>
      args = \<lparr>pinecone = (argv \<noteq> [])\<rparr>"
  then have nm: "\<forall>tok\<in>set argv. tok \<noteq> ''--''"
    using marker_not_flag by (auto simp: list_all_iff)
  then have opts: "takeWhile (\<lambda>tok. tok \<noteq> ''--'') argv = argv"
    and rest: "dropWhile (\<lambda>tok. tok \<noteq> ''--'') argv = []"
    by (simp_all add: takeWhile_eq_all_conv dropWhile_eq_Nil_conv)
  from B have M: "list_all (\<lambda>r. r = Matched StoreTrue) (map (parse_optional parser) argv)"
    by (simp add: list_all_iff parse_optional_flag)
  then have "Ambiguous \<notin> set (map (parse_optional parser) argv)"
    by (auto simp: list_all_iff)
  with consume_flags[OF M, of False] B
  show "parse_args parser argv = Inr args"
    unfolding parse_args_def Let_def opts rest by simp
qed

lemma parse_args_flag:
  assumes "parse_args parser argv = Inr args"
  shows "pinecone args = flag_passed argv"
proof -
  from assms have "list_all (\<lambda>tok. tok \<in> set pinecone_spellings) argv"
    and "args = \<lparr>pinecone = (argv \<noteq> [])\<rparr>"
    by (simp_all add: parse_args_accept)
  then show ?thesis by (cases argv) (auto simp: flag_passed_def)
qed

lemma parse_args_none: "parse_args parser [] = Inr \<lparr>pinecone = False\<rparr>"
  by (simp add: parse_args_accept)

lemma parse_args_pinecone: "parse_args parser [''--pinecone''] = Inr \<lparr>pinecone = True\<rparr>"
  by (simp add: parse_args_accept pinecone_spellings_def)

lemma parse_args_pc: "parse_args parser [''-pc''] = Inr \<lparr>pinecone = True\<rparr>"
  by (simp add: parse_args_accept pinecone_spellings_def)

lemma flag_passed_pinecone: "flag_passed [''--pinecone'']"
  by (simp add: flag_passed_def pinecone_spellings_def)

subsection \<open>Failures\<close>

lemma propagates_facts:
  assumes "propagates x"
  shows "list_all (\<lambda>ev. snd ev = None) (butlast (events_of x))"
    and "result_of x = Inl e \<longleftrightarrow> events_of x \<noteq> [] \<and> snd (last (events_of x)) = Some e"
    and "(\<exists>u. result_of x = Inr u) \<longleftrightarrow> list_all (\<lambda>ev. snd ev = None) (events_of x)"
    and "list_ex (\<lambda>ev. snd ev = Some e) (events_of x) \<Longrightarrow> result_of x = Inl e"
proof -
  from assms show 1: "list_all (\<lambda>ev. snd ev = None) (butlast (events_of x))"
    by (simp add: propagates_def)
  from assms have 2: "\<And>e'. result_of x = Inl e' \<Longrightarrow>
      events_of x \<noteq> [] \<and> snd (last (events_of x)) = Some e'"
    by (simp add: propagates_def)
  from assms have 3: "\<And>u. result_of x = Inr u \<Longrightarrow> list_all (\<lambda>ev. snd ev = None) (events_of x)"
    by (simp add: propagates_def)
  show 4: "result_of x = Inl e \<longleftrightarrow> events_of x \<noteq> [] \<and> snd (last (events_of x)) = Some e"
  proof
    assume "result_of x = Inl e" then show "events_of x \<noteq> [] \<and> snd (last (events_of x)) = Some e"
      by (rule 2)
  next
    assume a: "events_of x \<noteq> [] \<and> snd (last (events_of x)) = Some e"
    show "result_of x = Inl e"
    proof (cases "result_of x")
      case (Inl e')
      with 2[of e'] a show ?thesis by simp
    next
      case (Inr u)
      from 3[OF Inr] a have "snd (last (events_of x)) = None"
        using last_in_set[of "events_of x"] by (auto simp: list_all_iff)
      with a show ?thesis by simp
    qed
  qed
  show "(\<exists>u. result_of x = Inr u) \<longleftrightarrow> list_all (\<lambda>ev. snd ev = None) (events_of x)"
  proof
    assume "\<exists>u. result_of x = Inr u" then show "list_all (\<lambda>ev. snd ev = None) (events_of x)"
      using 3 by blast
  next
    assume a: "list_all (\<lambda>ev. snd ev = None) (events_of x)"
    show "\<exists>u. result_of x = Inr u"
    proof (cases "result_of x")
      case (Inl e')
      from 2[OF Inl] a have False
        using last_in_set[of "events_of x"] by (auto simp: list_all_iff)
      then show ?thesis ..
    next
      case (Inr u)
      then show ?thesis by blast
    qed
  qed
  assume "list_ex (\<lambda>ev. snd ev = Some e) (events_of x)"
  then obtain ev where ev: "ev \<in> set (events_of x)" "snd ev = Some e"
    by (auto simp: list_ex_iff)
  then have ne: "events_of x \<noteq> []" by auto
  then have "events_of x = butlast (events_of x) @ [last (events_of x)]" by simp
  then have "ev \<in> set (butlast (events_of x)) \<or> ev = last (events_of x)"
    using ev(1) by (metis Un_iff empty_iff empty_set insert_iff list.simps(15) set_append)
  with 1 ev(2) have "ev = last (events_of x)" by (auto simp: list_all_iff)
  with ev(2) ne 4 show "result_of x = Inl e" by simp
qed

lemma script_unfold:
  "script penv cfg ext argv s =
     (case OpenAIChat_init ext (penv ''OPENAI_API_KEY'') of
        Inl e \<Rightarrow>
          (Uncaught e,
           [(Getenv ''OPENAI_API_KEY'', None),
            (OpenAIChatInit (penv ''OPENAI_API_KEY''), Some e)], s)
      | Inr chat \<Rightarrow>
          (case parse_args parser argv of
             Inl n \<Rightarrow>
               (SystemExit n,
                [(Getenv ''OPENAI_API_KEY'', None),
                 (OpenAIChatInit (penv ''OPENAI_API_KEY''), None)], s)
           | Inr args \<Rightarrow>
               ((case result_of (main cfg ext chat (pinecone args) s) of
                   Inl e \<Rightarrow> Uncaught e | Inr _ \<Rightarrow> Finished),
                (Getenv ''OPENAI_API_KEY'', None) #
                (OpenAIChatInit (penv ''OPENAI_API_KEY''), None) #
                  events_of (main cfg ext chat (pinecone args) s),
                final_of (main cfg ext chat (pinecone args) s))))"
  by (simp add: script_def getenv_def Let_def outcome_def split: sum.splits prod.splits)

text \<open>
  Claim C5. No failure is caught or retried. In every run of \<^verbatim>\<open>main\<close> every call but the
  last has returned; the run ends with an exception exactly when its last call raised it,
  and with that very exception; it completes exactly when every call returned. For the
  process: exit status 0 only when no call of the run raised, and when a call raised, the
  process ends with that exception uncaught and exit status 1.
\<close>

theorem failures_propagate:
  "list_all (\<lambda>ev. snd ev = None) (butlast (events_of (main cfg ext chat up s))) \<and>
   (\<forall>e. result_of (main cfg ext chat up s) = Inl e \<longleftrightarrow>
      events_of (main cfg ext chat up s) \<noteq> [] \<and>
      snd (last (events_of (main cfg ext chat up s))) = Some e) \<and>
   (result_of (main cfg ext chat up s) = Inr () \<longleftrightarrow>
      list_all (\<lambda>ev. snd ev = None) (events_of (main cfg ext chat up s))) \<and>
   (exit_code (result_of (script penv cfg ext argv s)) = 0 \<longrightarrow>
      list_all (\<lambda>ev. snd ev = None) (events_of (script penv cfg ext argv s))) \<and>
   (\<forall>e. list_ex (\<lambda>ev. snd ev = Some e) (events_of (script penv cfg ext argv s)) \<longrightarrow>
      result_of (script penv cfg ext argv s) = Uncaught e \<and>
      exit_code (result_of (script penv cfg ext argv s)) = 1)"
proof (intro conjI allI impI)
  note P = propagates_main[of cfg ext chat up s]
  show "list_all (\<lambda>ev. snd ev = None) (butlast (events_of (main cfg ext chat up s)))"
    by (rule propagates_facts(1)[OF P])
  show "result_of (main cfg ext chat up s) = Inl e \<longleftrightarrow>
      events_of (main cfg ext chat up s) \<noteq> [] \<and>
      snd (last (events_of (main cfg ext chat up s))) = Some e" for e
    by (rule propagates_facts(2)[OF P])
  show "result_of (main cfg ext chat up s) = Inr () \<longleftrightarrow>
      list_all (\<lambda>ev. snd ev = None) (events_of (main cfg ext chat up s))"
    using propagates_facts(3)[OF P] by simp
next
  assume z: "exit_code (result_of (script penv cfg ext argv s)) = 0"
  show "list_all (\<lambda>ev. snd ev = None) (events_of (script penv cfg ext argv s))"
  proof (cases "OpenAIChat_init ext (penv ''OPENAI_API_KEY'')")
    case (Inl e0)
    with z show ?thesis by (simp add: script_unfold exit_code_def)
  next
    case built: (Inr chat)
    show ?thesis
    proof (cases "parse_args parser argv")
      case (Inl n)
      with built show ?thesis by (simp add: script_unfold)
    next
      case (Inr args)
      let ?R = "main cfg ext chat (pinecone args) s"
      from z built Inr have "\<exists>u. result_of ?R = Inr u"
        by (simp add: script_unfold exit_code_def split: sum.splits)
      then have "list_all (\<lambda>ev. snd ev = None) (events_of ?R)"
        using propagates_facts(3)[OF propagates_main[of cfg ext chat "pinecone args" s]] by blast
      with built Inr show ?thesis by (simp add: script_unfold)
    qed
  qed
next
  fix e
  assume x: "list_ex (\<lambda>ev. snd ev = Some e) (events_of (script penv cfg ext argv s))"
  show "result_of (script penv cfg ext argv s) = Uncaught e"
  proof (cases "OpenAIChat_init ext (penv ''OPENAI_API_KEY'')")
    case (Inl e0)
    with x show ?thesis by (simp add: script_unfold)
  next
    case built: (Inr chat)
    show ?thesis
    proof (cases "parse_args parser argv")
      case (Inl n)
      with x built show ?thesis by (simp add: script_unfold)
    next
      case (Inr args)
      let ?R = "main cfg ext chat (pinecone args) s"
      from x built Inr have "list_ex (\<lambda>ev. snd ev = Some e) (events_of ?R)"
        by (simp add: script_unfold)
      then have "result_of ?R = Inl e"
        by (rule propagates_facts(4)[OF propagates_main])
      with built Inr show ?thesis by (simp add: script_unfold)
    qed
  qed
  then show "exit_code (result_of (script penv cfg ext argv s)) = 1"
    by (simp add: exit_code_def)
qed

lemma sample_init [simp]:
  "OpenAIChat_init sample_ext key = Inr \<lparr>api_key = key\<rparr>"
  "OpenAIChat_init sample_ext_no_index key = Inr \<lparr>api_key = key\<rparr>"
  by (simp_all add: sample_ext_def sample_ext_no_index_def)

lemma sample_run_no_index:
  "main sample_cfg sample_ext_no_index chat True cached =
     (Inl ''IndexUnavailable'',
      [(ReadPickle ''news.pkl'', None), (SetupPinecone 7, Some ''IndexUnavailable'')],
      cached)"
  by (simp add: main_unfold load_or_build_unfold sample_ext_no_index_def sample_defs outcome_def)

theorem failures_propagate_witness:
  "result_of (script Map.empty sample_cfg sample_ext_no_index [''--pinecone''] cached) =
     Uncaught ''IndexUnavailable'' \<and>
   exit_code (result_of (script Map.empty sample_cfg sample_ext_no_index [''--pinecone''] cached)) = 1"
proof -
  have "list_ex (\<lambda>ev. snd ev = Some ''IndexUnavailable'')
      (events_of (script Map.empty sample_cfg sample_ext_no_index [''--pinecone''] cached))"
    by (simp add: script_unfold parse_args_pinecone sample_run_no_index)
  with failures_propagate [of sample_cfg sample_ext_no_index sample_chat True cached
      Map.empty "[''--pinecone'']"]
  show ?thesis by blast
qed

subsection \<open>Provisioning\<close>

lemma loop_no_provision:
  "list_all (\<lambda>ev. \<not> is_provision (fst ev)) (events_of (topic_loop ext chat up df ts s))"
  by (rule list_all_loop_weaken) (auto elim: is_loop_call.elims)

lemma lob_no_provision_retrieval:
  "load_or_build cfg ext chat s = (r, evs0, s0) \<Longrightarrow>
   list_all (\<lambda>ev. \<not> is_provision (fst ev) \<and> \<not> is_retrieval (fst ev)) evs0"
  using lob_quiet[of cfg ext chat s r evs0 s0] retrieval_is_loop_call
  by (fastforce simp: list_all_iff)

lemma filter_none: "list_all (\<lambda>x. \<not> P x) xs \<Longrightarrow> filter P xs = []"
  by (induction xs) auto

text \<open>
  Claim C6. In local mode provisioning never runs: the topic loop starts in the state
  the load left. In hosted mode it does not run when loading the corpus fails; when the
  corpus is loaded, \<^verbatim>\<open>setup_pinecone\<close> is the very next call, on the dataframe that was
  loaded, no retrieval comes before it, and it is the only provisioning of the run. When
  it raises, the run ends there with its exception; when it returns, the topic loop starts
  in the world it returned, so every retrieval sees the provisioned index.
\<close>

theorem main_provision_once:
  "(\<not> up \<longrightarrow>
      list_all (\<lambda>ev. \<not> is_provision (fst ev)) (events_of (main cfg ext chat up s)) \<and>
      (\<forall>df evs0 s0. load_or_build cfg ext chat s = (Inr df, evs0, s0) \<longrightarrow>
         main cfg ext chat up s =
           (result_of (topic_loop ext chat up df topics s0),
            evs0 @ events_of (topic_loop ext chat up df topics s0),
            final_of (topic_loop ext chat up df topics s0)))) \<and>
   (up \<longrightarrow>
      (\<forall>e evs0 s0. load_or_build cfg ext chat s = (Inl e, evs0, s0) \<longrightarrow>
         list_all (\<lambda>ev. \<not> is_provision (fst ev)) (events_of (main cfg ext chat up s))) \<and>
      (\<forall>df evs0 s0. load_or_build cfg ext chat s = (Inr df, evs0, s0) \<longrightarrow>
         list_all (\<lambda>ev. \<not> is_provision (fst ev) \<and> \<not> is_retrieval (fst ev)) evs0 \<and>
         (\<exists>rest. events_of (main cfg ext chat up s) =
              evs0 @ (SetupPinecone df, outcome (fst (setup_pinecone ext df (world s0)))) # rest \<and>
            list_all (\<lambda>ev. \<not> is_provision (fst ev)) rest) \<and>
         length (filter (\<lambda>ev. is_provision (fst ev)) (events_of (main cfg ext chat up s))) = 1 \<and>
         (\<forall>e w. setup_pinecone ext df (world s0) = (Inl e, w) \<longrightarrow>
            main cfg ext chat up s =
              (Inl e, evs0 @ [(SetupPinecone df, Some e)], s0\<lparr>world := w\<rparr>)) \<and>
         (\<forall>u w. setup_pinecone ext df (world s0) = (Inr u, w) \<longrightarrow>
            main cfg ext chat up s =
              (result_of (topic_loop ext chat up df topics (s0\<lparr>world := w\<rparr>)),
               evs0 @ (SetupPinecone df, None) #
                 events_of (topic_loop ext chat up df topics (s0\<lparr>world := w\<rparr>)),
               final_of (topic_loop ext chat up df topics (s0\<lparr>world := w\<rparr>))))))"
proof (intro conjI impI allI)
  assume "\<not> up"
  obtain r0 evs0 s0 where L: "load_or_build cfg ext chat s = (r0, evs0, s0)"
    by (metis prod_cases3)
  from lob_no_provision_retrieval[OF L]
  have Q: "list_all (\<lambda>ev. \<not> is_provision (fst ev)) evs0" by (auto simp: list_all_iff)
  from \<open>\<not> up\<close> L Q show "list_all (\<lambda>ev. \<not> is_provision (fst ev)) (events_of (main cfg ext chat up s))"
    by (cases r0) (simp_all add: main_unfold loop_no_provision)
next
  fix df evs0 s0
  assume "\<not> up" and "load_or_build cfg ext chat s = (Inr df, evs0, s0)"
  then show "main cfg ext chat up s =
           (result_of (topic_loop ext chat up df topics s0),
            evs0 @ events_of (topic_loop ext chat up df topics s0),
            final_of (topic_loop ext chat up df topics s0))"
    by (simp add: main_unfold)
next
  fix e evs0 s0
  assume L: "load_or_build cfg ext chat s = (Inl e, evs0, s0)"
  from lob_no_provision_retrieval[OF L]
  have Q: "list_all (\<lambda>ev. \<not> is_provision (fst ev)) evs0" by (auto simp: list_all_iff)
  with L show "list_all (\<lambda>ev. \<not> is_provision (fst ev)) (events_of (main cfg ext chat up s))"
    by (simp add: main_unfold)
next
  fix df evs0 s0
  assume up and L: "load_or_build cfg ext chat s = (Inr df, evs0, s0)"
  show Q: "list_all (\<lambda>ev. \<not> is_provision (fst ev) \<and> \<not> is_retrieval (fst ev)) evs0"
    by (rule lob_no_provision_retrieval[OF L])
  then have Q': "list_all (\<lambda>ev. \<not> is_provision (fst ev)) evs0" by (auto simp: list_all_iff)
  show E: "\<exists>rest. events_of (main cfg ext chat up s) =
              evs0 @ (SetupPinecone df, outcome (fst (setup_pinecone ext df (world s0)))) # rest \<and>
            list_all (\<lambda>ev. \<not> is_provision (fst ev)) rest"
    using \<open>up\<close> L
    by (cases "setup_pinecone ext df (world s0)")
      (auto simp: main_unfold outcome_def loop_no_provision split: sum.splits)
  then obtain rest where
    "events_of (main cfg ext chat up s) =
       evs0 @ (SetupPinecone df, outcome (fst (setup_pinecone ext df (world s0)))) # rest"
    and "list_all (\<lambda>ev. \<not> is_provision (fst ev)) rest" by blast
  then show "length (filter (\<lambda>ev. is_provision (fst ev)) (events_of (main cfg ext chat up s))) = 1"
    using Q' by (simp add: filter_none)
  show "main cfg ext chat up s =
      (Inl e, evs0 @ [(SetupPinecone df, Some e)], s0\<lparr>world := w\<rparr>)"
    if "setup_pinecone ext df (world s0) = (Inl e, w)" for e w
    using that \<open>up\<close> L by (simp add: main_unfold)
  show "main cfg ext chat up s =
      (result_of (topic_loop ext chat up df topics (s0\<lparr>world := w\<rparr>)),
       evs0 @ (SetupPinecone df, None) #
         events_of (topic_loop ext chat up df topics (s0\<lparr>world := w\<rparr>)),
       final_of (topic_loop ext chat up df topics (s0\<lparr>world := w\<rparr>)))"
    if "setup_pinecone ext df (world s0) = (Inr u, w)" for u w
    using that \<open>up\<close> L by (simp add: main_unfold)
qed

lemma sample_lob_fresh:
  "load_or_build sample_cfg sample_ext sample_chat fresh =
     (Inr 11,
      [(LoadData ''http://news'' 1000, None), (EmbedDf 10 \<lparr>api_key = Some ''sk''\<rparr>, None),
       (ToPickle 11 ''news.pkl'', None)],
      \<lparr>world = 2, fs = [''news.pkl'' \<mapsto> 11]\<rparr>)"
  by (simp add: load_or_build_unfold sample_defs)

lemma sample_lob_no_index:
  "load_or_build sample_cfg sample_ext_no_index sample_chat cached =
     (Inr 7, [(ReadPickle ''news.pkl'', None)], cached)"
  by (simp add: load_or_build_unfold sample_ext_no_index_def sample_defs outcome_def)

text \<open>
  A hosted run whose provisioning fails ends there, in the world the failed call left;
  a hosted run that provisions goes on from the world after the provisioning.
\<close>

theorem main_provision_once_witness:
  "main sample_cfg sample_ext_no_index sample_chat True cached =
     (Inl ''IndexUnavailable'',
      [(ReadPickle ''news.pkl'', None), (SetupPinecone 7, Some ''IndexUnavailable'')],
      cached) \<and>
   final_of (main sample_cfg sample_ext sample_chat True fresh) =
     final_of (topic_loop sample_ext sample_chat True 11 topics
       \<lparr>world = 3, fs = [''news.pkl'' \<mapsto> 11]\<rparr>) \<and>
   length (filter (\<lambda>ev. is_provision (fst ev))
     (events_of (main sample_cfg sample_ext sample_chat True fresh))) = 1 \<and>
   list_all (\<lambda>ev. \<not> is_provision (fst ev))
     (events_of (main sample_cfg sample_ext sample_chat False cached))"
proof -
  have f: "setup_pinecone sample_ext_no_index 7 (world cached) = (Inl ''IndexUnavailable'', 0)"
    by (simp add: sample_ext_no_index_def cached_def)
  have g: "setup_pinecone sample_ext 11 (world \<lparr>world = 2, fs = [''news.pkl'' \<mapsto> 11 :: nat]\<rparr>) =
      (Inr (), 3)"
    by (simp add: sample_ext_def)
  from main_provision_once [of True sample_cfg sample_ext_no_index sample_chat cached]
    sample_lob_no_index f
  have "main sample_cfg sample_ext_no_index sample_chat True cached =
      (Inl ''IndexUnavailable'',
       [(ReadPickle ''news.pkl'', None)] @ [(SetupPinecone 7, Some ''IndexUnavailable'')],
       cached\<lparr>world := 0\<rparr>)"
    by blast
  then have a: "main sample_cfg sample_ext_no_index sample_chat True cached =
     (Inl ''IndexUnavailable'',
      [(ReadPickle ''news.pkl'', None), (SetupPinecone 7, Some ''IndexUnavailable'')],
      cached)"
    by (simp add: cached_def)
  from main_provision_once [of True sample_cfg sample_ext sample_chat fresh]
    sample_lob_fresh g
  have "main sample_cfg sample_ext sample_chat True fresh =
      (result_of (topic_loop sample_ext sample_chat True 11 topics
         (\<lparr>world = 2, fs = [''news.pkl'' \<mapsto> 11]\<rparr>\<lparr>world := 3\<rparr>)),
       [(LoadData ''http://news'' 1000, None), (EmbedDf 10 \<lparr>api_key = Some ''sk''\<rparr>, None),
        (ToPickle 11 ''news.pkl'', None)] @ (SetupPinecone 11, None) #
         events_of (topic_loop sample_ext sample_chat True 11 topics
           (\<lparr>world = 2, fs = [''news.pkl'' \<mapsto> 11]\<rparr>\<lparr>world := 3\<rparr>)),
       final_of (topic_loop sample_ext sample_chat True 11 topics
         (\<lparr>world = 2, fs = [''news.pkl'' \<mapsto> 11]\<rparr>\<lparr>world := 3\<rparr>)))"
    by blast
  then have b: "final_of (main sample_cfg sample_ext sample_chat True fresh) =
     final_of (topic_loop sample_ext sample_chat True 11 topics
       \<lparr>world = 3, fs = [''news.pkl'' \<mapsto> 11]\<rparr>)"
    by simp
  from main_provision_once [of True sample_cfg sample_ext sample_chat fresh] sample_lob_fresh
  have c: "length (filter (\<lambda>ev. is_provision (fst ev))
     (events_of (main sample_cfg sample_ext sample_chat True fresh))) = 1"
    by blast
  from main_provision_once [of False sample_cfg sample_ext sample_chat cached]
  have d: "list_all (\<lambda>ev. \<not> is_provision (fst ev))
     (events_of (main sample_cfg sample_ext sample_chat False cached))"
    by blast
  from a b c d show ?thesis by (intro conjI)
qed

subsection \<open>The topic loop\<close>

lemma stdout_Nil [simp]: "stdout [] = []"
  by (simp add: stdout_def)

lemma stdout_Cons [simp]: "stdout (ev # evs) = printed (fst ev) @ stdout evs"
  by (simp add: stdout_def)

lemma stdout_append [simp]: "stdout (xs @ ys) = stdout xs @ stdout ys"
  by (simp add: stdout_def)

lemma answered_simps [simp]:
  "answered (ChatCreate chat p, out) = (out = None)"
  "answered (Print x, out) = False"
  "answered (SetupPinecone df, out) = False"
  "answered (LoadData u n, out) = False"
  "answered (EmbedDf df chat, out) = False"
  "answered (ToPickle df path, out) = False"
  "answered (ReadPickle path, out) = False"
  by (simp_all add: answered_def)

lemma before_loop_unfold:
  "before_loop cfg ext chat up s =
     (case load_or_build cfg ext chat s of
        (Inl e, evs0, s0) \<Rightarrow> (Inl e, evs0, s0)
      | (Inr df, evs0, s0) \<Rightarrow>
          (if up
           then (case setup_pinecone ext df (world s0) of
                   (Inl e, w) \<Rightarrow> (Inl e, evs0 @ [(SetupPinecone df, Some e)], s0\<lparr>world := w\<rparr>)
                 | (Inr u, w) \<Rightarrow> (Inr df, evs0 @ [(SetupPinecone df, None)], s0\<lparr>world := w\<rparr>))
           else (Inr df, evs0, s0)))"
  by (cases up)
    (simp_all add: before_loop_def bind_run_proj extcall_def return_run_def outcome_def
      split: prod.splits sum.splits)

lemma main_before_loop:
  "main cfg ext chat up s =
     (case before_loop cfg ext chat up s of
        (Inl e, evs0, s0) \<Rightarrow> (Inl e, evs0, s0)
      | (Inr df, evs0, s0) \<Rightarrow>
          (result_of (topic_loop ext chat up df topics s0),
           evs0 @ events_of (topic_loop ext chat up df topics s0),
           final_of (topic_loop ext chat up df topics s0)))"
  by (cases up) (simp_all add: main_unfold before_loop_unfold split: prod.splits sum.splits)

lemma lob_silent:
  "load_or_build cfg ext chat s = (r, evs0, s0) \<Longrightarrow> stdout evs0 = [] \<and> filter answered evs0 = []"
  by (auto simp: load_or_build_unfold split: if_splits prod.splits sum.splits)

lemma before_loop_silent:
  assumes "before_loop cfg ext chat up s = (r, evs0, s0)"
  shows "stdout evs0 = []" and "filter answered evs0 = []" and "requests evs0 = []"
proof -
  obtain r' evs' s' where L: "load_or_build cfg ext chat s = (r', evs', s')"
    by (metis prod_cases3)
  note A = lob_silent[OF L] lob_requests[OF L]
  from assms L A show "stdout evs0 = []"
    by (auto simp: before_loop_unfold split: if_splits prod.splits sum.splits)
  from assms L A show "filter answered evs0 = []"
    by (auto simp: before_loop_unfold split: if_splits prod.splits sum.splits)
  from assms L A show "requests evs0 = []"
    by (auto simp: before_loop_unfold split: if_splits prod.splits sum.splits)
qed

lemma loop_stdout:
  "\<exists>xs. length xs = length (filter answered (events_of (topic_loop ext chat up df ts s))) \<and>
     stdout (events_of (topic_loop ext chat up df ts s)) =
       concat (map (\<lambda>x. x @ [CHR 0x0A, CHR 0x0A, CHR 0x0A]) xs)"
proof (induction ts arbitrary: s)
  case Nil
  show ?case by (simp add: return_run_def)
next
  case (Cons t ts)
  show ?case
  proof (cases "chat_create ext chat (prompt_for up 3 t df) (world s)")
    case (Pair r w')
    show ?thesis
    proof (cases r)
      case (Inl e)
      with Pair show ?thesis by (simp add: topic_loop_Cons del: topic_loop.simps)
    next
      case (Inr c)
      from Cons.IH[of "s\<lparr>world := w'\<rparr>"] obtain xs where
        xs: "length xs = length (filter answered (events_of (topic_loop ext chat up df ts (s\<lparr>world := w'\<rparr>))))"
          "stdout (events_of (topic_loop ext chat up df ts (s\<lparr>world := w'\<rparr>))) =
             concat (map (\<lambda>x. x @ [CHR 0x0A, CHR 0x0A, CHR 0x0A]) xs)"
        by blast
      show ?thesis
        by (rule exI[of _ "str_completion ext c # xs"])
          (simp add: topic_loop_Cons Pair Inr xs del: topic_loop.simps)
    qed
  qed
qed

lemma loop_three:
  assumes "chat_create ext chat (prompt_for up 3 (topics ! 0) df) (world s) = (Inr c1, w1)"
    and "chat_create ext chat (prompt_for up 3 (topics ! 1) df) w1 = (Inr c2, w2)"
    and "chat_create ext chat (prompt_for up 3 (topics ! 2) df) w2 = (Inr c3, w3)"
  shows "topic_loop ext chat up df topics s =
     (Inr (),
      [(ChatCreate chat (prompt_for up 3 (topics ! 0) df), None),
       (Print (str_completion ext c1), None), (Print [CHR 0x0A], None),
       (ChatCreate chat (prompt_for up 3 (topics ! 1) df), None),
       (Print (str_completion ext c2), None), (Print [CHR 0x0A], None),
       (ChatCreate chat (prompt_for up 3 (topics ! 2) df), None),
       (Print (str_completion ext c3), None), (Print [CHR 0x0A], None)],
      s\<lparr>world := w3\<rparr>)"
proof -
  have "topic_loop ext chat up df topics s =
      topic_loop ext chat up df [topics ! 0, topics ! 1, topics ! 2] s"
    by (metis topics_three)
  also have "\<dots> = (Inr (),
      [(ChatCreate chat (prompt_for up 3 (topics ! 0) df), None),
       (Print (str_completion ext c1), None), (Print [CHR 0x0A], None),
       (ChatCreate chat (prompt_for up 3 (topics ! 1) df), None),
       (Print (str_completion ext c2), None), (Print [CHR 0x0A], None),
       (ChatCreate chat (prompt_for up 3 (topics ! 2) df), None),
       (Print (str_completion ext c3), None), (Print [CHR 0x0A], None)],
      s\<lparr>world := w3\<rparr>)"
    using assms by (simp add: loop_simps del: topic_loop.simps)
  finally show ?thesis .
qed

text \<open>
  Claim C10. The topics are the three strings of the source. In every run the retrievals
  ask for these topics in this order, three articles each, as far as the run gets, and a
  run that completes has asked for all three. Standard output is, for every retrieval
  that returned, one block: a text, its newline, and the two newlines of \<^verbatim>\<open>print("\n")\<close>.
  When the three calls to the chat client return, the run is the calls before the loop
  and then, for each topic in turn, the call, the print of its completion as a string,
  and the print of the separator.
\<close>

theorem main_topics:
  "topics = [''soccer teams/players going through trouble'',
             ''environmental factors affecting economy'',
             ''celebrity or politician scandals''] \<and>
   requests (events_of (main cfg ext chat up s)) =
     take (length (requests (events_of (main cfg ext chat up s)))) (map (Pair 3) topics) \<and>
   (result_of (main cfg ext chat up s) = Inr () \<longrightarrow>
      requests (events_of (main cfg ext chat up s)) = map (Pair 3) topics) \<and>
   (\<exists>xs. length xs = length (filter answered (events_of (main cfg ext chat up s))) \<and>
      stdout (events_of (main cfg ext chat up s)) =
        concat (map (\<lambda>x. x @ [CHR 0x0A, CHR 0x0A, CHR 0x0A]) xs)) \<and>
   (\<forall>df evs0 s0 c1 w1 c2 w2 c3 w3.
      before_loop cfg ext chat up s = (Inr df, evs0, s0) \<longrightarrow>
      chat_create ext chat (prompt_for up 3 (topics ! 0) df) (world s0) = (Inr c1, w1) \<longrightarrow>
      chat_create ext chat (prompt_for up 3 (topics ! 1) df) w1 = (Inr c2, w2) \<longrightarrow>
      chat_create ext chat (prompt_for up 3 (topics ! 2) df) w2 = (Inr c3, w3) \<longrightarrow>
        main cfg ext chat up s =
          (Inr (),
           evs0 @
           [(ChatCreate chat (prompt_for up 3 (topics ! 0) df), None),
            (Print (str_completion ext c1), None), (Print [CHR 0x0A], None),
            (ChatCreate chat (prompt_for up 3 (topics ! 1) df), None),
            (Print (str_completion ext c2), None), (Print [CHR 0x0A], None),
            (ChatCreate chat (prompt_for up 3 (topics ! 2) df), None),
            (Print (str_completion ext c3), None), (Print [CHR 0x0A], None)],
           s0\<lparr>world := w3\<rparr>) \<and>
        stdout (events_of (main cfg ext chat up s)) =
          str_completion ext c1 @ [CHR 0x0A, CHR 0x0A, CHR 0x0A] @
          str_completion ext c2 @ [CHR 0x0A, CHR 0x0A, CHR 0x0A] @
          str_completion ext c3 @ [CHR 0x0A, CHR 0x0A, CHR 0x0A])"
proof -
  obtain r0 evs0 s0 where B: "before_loop cfg ext chat up s = (r0, evs0, s0)"
    by (metis prod_cases3)
  note Q = before_loop_silent[OF B]
  have 1: "requests (events_of (main cfg ext chat up s)) =
     take (length (requests (events_of (main cfg ext chat up s)))) (map (Pair 3) topics)"
    using loop_requests[of ext chat up _ topics s0]
    by (cases r0) (simp_all add: main_before_loop B Q)
  have 2: "result_of (main cfg ext chat up s) = Inr () \<longrightarrow>
      requests (events_of (main cfg ext chat up s)) = map (Pair 3) topics"
    by (cases r0) (simp_all add: main_before_loop B Q loop_requests_done)
  have 3: "\<exists>xs. length xs = length (filter answered (events_of (main cfg ext chat up s))) \<and>
      stdout (events_of (main cfg ext chat up s)) =
        concat (map (\<lambda>x. x @ [CHR 0x0A, CHR 0x0A, CHR 0x0A]) xs)"
  proof (cases r0)
    case (Inl e)
    with B Q show ?thesis by (simp add: main_before_loop)
  next
    case (Inr df)
    with B Q loop_stdout[of ext chat up df topics s0] show ?thesis
      by (simp add: main_before_loop)
  qed
  have 4: "main cfg ext chat up s =
          (Inr (),
           evs0' @
           [(ChatCreate chat (prompt_for up 3 (topics ! 0) df), None),
            (Print (str_completion ext c1), None), (Print [CHR 0x0A], None),
            (ChatCreate chat (prompt_for up 3 (topics ! 1) df), None),
            (Print (str_completion ext c2), None), (Print [CHR 0x0A], None),
            (ChatCreate chat (prompt_for up 3 (topics ! 2) df), None),
            (Print (str_completion ext c3), None), (Print [CHR 0x0A], None)],
           s0'\<lparr>world := w3\<rparr>) \<and>
        stdout (events_of (main cfg ext chat up s)) =
          str_completion ext c1 @ [CHR 0x0A, CHR 0x0A, CHR 0x0A] @
          str_completion ext c2 @ [CHR 0x0A, CHR 0x0A, CHR 0x0A] @
          str_completion ext c3 @ [CHR 0x0A, CHR 0x0A, CHR 0x0A]"
    if "before_loop cfg ext chat up s = (Inr df, evs0', s0')"
      and "chat_create ext chat (prompt_for up 3 (topics ! 0) df) (world s0') = (Inr c1, w1)"
      and "chat_create ext chat (prompt_for up 3 (topics ! 1) df) w1 = (Inr c2, w2)"
      and "chat_create ext chat (prompt_for up 3 (topics ! 2) df) w2 = (Inr c3, w3)"
    for df evs0' s0' c1 w1 c2 w2 c3 w3
    using that(1) before_loop_silent(1)[OF that(1)] loop_three[OF that(2-4)]
    by (simp add: main_before_loop)
  have 0: "topics = [''soccer teams/players going through trouble'',
             ''environmental factors affecting economy'',
             ''celebrity or politician scandals'']"
    by (simp add: topics_def)
  from 0 1 2 3 4 show ?thesis by blast
qed

lemma sample_before_loop:
  "before_loop sample_cfg sample_ext sample_chat True fresh =
     (Inr 11,
      [(LoadData ''http://news'' 1000, None), (EmbedDf 10 \<lparr>api_key = Some ''sk''\<rparr>, None),
       (ToPickle 11 ''news.pkl'', None), (SetupPinecone 11, None)],
      \<lparr>world = 3, fs = [''news.pkl'' \<mapsto> 11]\<rparr>)"
  by (simp add: before_loop_unfold sample_lob_fresh) (simp add: sample_defs)

theorem main_topics_witness:
  "requests (events_of (main sample_cfg sample_ext sample_chat True fresh)) =
     map (Pair 3) topics \<and>
   stdout (events_of (main sample_cfg sample_ext sample_chat True fresh)) =
     ''summary'' @ [CHR 0x0A, CHR 0x0A, CHR 0x0A] @
     ''summary'' @ [CHR 0x0A, CHR 0x0A, CHR 0x0A] @
     ''summary'' @ [CHR 0x0A, CHR 0x0A, CHR 0x0A]"
proof -
  have r: "result_of (main sample_cfg sample_ext sample_chat True fresh) = Inr ()"
    by (simp add: sample_run_hosted)
  have c: "chat_create sample_ext sample_chat (prompt_for True 3 (topics ! 0) 11)
        (world \<lparr>world = 3, fs = [''news.pkl'' \<mapsto> 11]\<rparr>) = (Inr ''summary'', 4)"
    "chat_create sample_ext sample_chat (prompt_for True 3 (topics ! 1) 11) 4 = (Inr ''summary'', 5)"
    "chat_create sample_ext sample_chat (prompt_for True 3 (topics ! 2) 11) 5 = (Inr ''summary'', 6)"
    by (simp_all add: sample_ext_def)
  have s: "str_completion sample_ext ''summary'' = ''summary''"
    by (simp add: sample_ext_def)
  from main_topics [of sample_cfg sample_ext sample_chat True fresh] r sample_before_loop c
  have "requests (events_of (main sample_cfg sample_ext sample_chat True fresh)) =
        map (Pair 3) topics"
    and "stdout (events_of (main sample_cfg sample_ext sample_chat True fresh)) =
      str_completion sample_ext ''summary'' @ [CHR 0x0A, CHR 0x0A, CHR 0x0A] @
      str_completion sample_ext ''summary'' @ [CHR 0x0A, CHR 0x0A, CHR 0x0A] @
      str_completion sample_ext ''summary'' @ [CHR 0x0A, CHR 0x0A, CHR 0x0A]"
    by blast+
  then show ?thesis unfolding s by blast
qed

subsection \<open>The command line flag\<close>

lemma loop_each:
  assumes "\<And>t. P (ChatCreate chat (prompt_for up 3 t df))" and "\<And>x. P (Print x)"
  shows "list_all (\<lambda>ev. P (fst ev)) (events_of (topic_loop ext chat up df ts s))"
  by (induction ts arbitrary: s)
    (auto simp: loop_simps assms simp del: topic_loop.simps split: prod.splits sum.splits)

lemma lob_each:
  assumes "P (LoadData (URL cfg) (MAX_TOKENS cfg))" and "\<And>df. P (EmbedDf df chat)"
    and "\<And>df. P (ToPickle df (FILENAME cfg))" and "P (ReadPickle (FILENAME cfg))"
  shows "list_all (\<lambda>ev. P (fst ev)) (events_of (load_or_build cfg ext chat s))"
  by (auto simp: load_or_build_unfold assms split: if_splits prod.splits sum.splits)

text \<open>Every call of a run is one of the calls written in \<^verbatim>\<open>main\<close>.\<close>

lemma main_each:
  assumes "P (LoadData (URL cfg) (MAX_TOKENS cfg))" and "\<And>df. P (EmbedDf df chat)"
    and "\<And>df. P (ToPickle df (FILENAME cfg))" and "P (ReadPickle (FILENAME cfg))"
    and "\<And>df. up \<Longrightarrow> P (SetupPinecone df)"
    and "\<And>t df. P (ChatCreate chat (prompt_for up 3 t df))" and "\<And>x. P (Print x)"
  shows "list_all (\<lambda>ev. P (fst ev)) (events_of (main cfg ext chat up s))"
proof -
  obtain r0 evs0 s0 where L: "load_or_build cfg ext chat s = (r0, evs0, s0)"
    by (metis prod_cases3)
  have A: "list_all (\<lambda>ev. P (fst ev)) evs0"
    using lob_each[of P cfg chat ext s, OF assms(1-4)] L by simp
  have B: "\<And>df s. list_all (\<lambda>ev. P (fst ev)) (events_of (topic_loop ext chat up df topics s))"
    by (rule loop_each) (rule assms)+
  show ?thesis
    using A B assms(5)
    by (cases r0; cases up) (auto simp: main_unfold L split: prod.splits sum.splits)
qed

text \<open>
  Claim C7. The retrieval backend is chosen by the flag \<open>up\<close> that \<^verbatim>\<open>main\<close> is entered
  with and does not change during the run: every call of the run that is a retrieval
  builds the prompt of that backend, for any topic, so the backends of the retrievals of
  a run are all the selected one; and a run that completes has made exactly three
  retrievals, all of them there.
\<close>

theorem main_backend_fixed:
  "list_all (\<lambda>ev. is_retrieval (fst ev) \<longrightarrow>
       (\<exists>t df. fst ev = ChatCreate chat (prompt_for up 3 t df)) \<and>
       retrieval_backend (fst ev) = Some (selected up))
     (events_of (main cfg ext chat up s)) \<and>
   list_all (\<lambda>b. b = selected up) (backends (events_of (main cfg ext chat up s))) \<and>
   (result_of (main cfg ext chat up s) = Inr () \<longrightarrow>
      backends (events_of (main cfg ext chat up s)) = [selected up, selected up, selected up])"
proof (intro conjI)
  show "list_all (\<lambda>ev. is_retrieval (fst ev) \<longrightarrow>
       (\<exists>t df. fst ev = ChatCreate chat (prompt_for up 3 t df)) \<and>
       retrieval_backend (fst ev) = Some (selected up))
     (events_of (main cfg ext chat up s))"
  proof (rule main_each)
    fix t df
    show "is_retrieval (ChatCreate chat (prompt_for up 3 t df)) \<longrightarrow>
       (\<exists>t' df'. ChatCreate chat (prompt_for up 3 t df) = ChatCreate chat (prompt_for up 3 t' df')) \<and>
       retrieval_backend (ChatCreate chat (prompt_for up 3 t df)) = Some (selected up)"
      by auto
  qed simp_all
  from main_backends[of up cfg ext chat s]
  show "list_all (\<lambda>b. b = selected up) (backends (events_of (main cfg ext chat up s)))"
    by (rule conjunct1)
  from main_backends[of up cfg ext chat s]
  show "result_of (main cfg ext chat up s) = Inr () \<longrightarrow>
      backends (events_of (main cfg ext chat up s)) = [selected up, selected up, selected up]"
    by (rule conjunct2)
qed

theorem main_backend_fixed_witness:
  "backends (events_of (main sample_cfg sample_ext sample_chat True fresh)) =
     [Hosted, Hosted, Hosted]"
proof -
  have "result_of (main sample_cfg sample_ext sample_chat True fresh) = Inr ()"
    by (simp add: sample_run_hosted)
  moreover from main_backend_fixed [of sample_chat True sample_cfg sample_ext fresh]
  have "result_of (main sample_cfg sample_ext sample_chat True fresh) = Inr () \<longrightarrow>
      backends (events_of (main sample_cfg sample_ext sample_chat True fresh)) =
        [selected True, selected True, selected True]"
    by (rule conjunct2 [THEN conjunct2])
  ultimately show ?thesis by (simp add: selected_def)
qed


lemma script_accepted:
  assumes "OpenAIChat_init ext (penv ''OPENAI_API_KEY'') = Inr chat"
    and "parse_args parser argv = Inr args"
  shows "script penv cfg ext argv s =
     ((case result_of (main cfg ext chat (flag_passed argv) s) of
         Inl e \<Rightarrow> Uncaught e | Inr _ \<Rightarrow> Finished),
      (Getenv ''OPENAI_API_KEY'', None) # (OpenAIChatInit (penv ''OPENAI_API_KEY''), None) #
        events_of (main cfg ext chat (flag_passed argv) s),
      final_of (main cfg ext chat (flag_passed argv) s))"
  using assms parse_args_flag[OF assms(2)] by (simp add: script_unfold)

lemma script_not_accepted:
  assumes "OpenAIChat_init ext (penv ''OPENAI_API_KEY'') = Inl e \<or>
      (\<exists>n. parse_args parser argv = Inl n)"
  shows "list_all (\<lambda>ev. is_startup (fst ev)) (events_of (script penv cfg ext argv s))"
    and "result_of (script penv cfg ext argv s) \<noteq> Finished"
  using assms by (auto simp: script_unfold split: sum.splits)

lemma main_local_no_provision:
  "list_all (\<lambda>ev. \<not> is_provision (fst ev)) (events_of (main cfg ext chat False s))"
  by (rule main_each) simp_all

lemma script_backends:
  "list_all (\<lambda>b. b = selected (flag_passed argv))
     (backends (events_of (script penv cfg ext argv s))) \<and>
   (\<not> flag_passed argv \<longrightarrow>
      list_all (\<lambda>ev. \<not> is_provision (fst ev)) (events_of (script penv cfg ext argv s))) \<and>
   (result_of (script penv cfg ext argv s) = Finished \<longrightarrow>
      backends (events_of (script penv cfg ext argv s)) =
        [selected (flag_passed argv), selected (flag_passed argv), selected (flag_passed argv)])"
proof (cases "OpenAIChat_init ext (penv ''OPENAI_API_KEY'')")
  case (Inl e)
  then show ?thesis by (simp add: script_unfold)
next
  case built: (Inr chat)
  show ?thesis
  proof (cases "parse_args parser argv")
    case (Inl n)
    with built show ?thesis by (simp add: script_unfold)
  next
    case (Inr args)
    note S = script_accepted[where penv = penv and ext = ext and cfg = cfg and s = s, OF built Inr]
    note B = main_backends[of "flag_passed argv" cfg ext chat s]
    have "list_all (\<lambda>b. b = selected (flag_passed argv))
        (backends (events_of (script penv cfg ext argv s)))"
      using B by (simp add: S)
    moreover have "list_all (\<lambda>ev. \<not> is_provision (fst ev))
        (events_of (script penv cfg ext argv s))" if "\<not> flag_passed argv"
      using that main_local_no_provision[of cfg ext chat s] by (simp add: S)
    moreover have "backends (events_of (script penv cfg ext argv s)) =
        [selected (flag_passed argv), selected (flag_passed argv), selected (flag_passed argv)]"
      if "result_of (script penv cfg ext argv s) = Finished"
    proof -
      from that have "result_of (main cfg ext chat (flag_passed argv) s) = Inr ()"
        by (simp add: S split: sum.splits)
      with B show ?thesis by (simp add: S)
    qed
    ultimately show ?thesis by blast
  qed
qed

text \<open>
  Claim C2. The parser has one argument besides the help that \<^verbatim>\<open>argparse\<close> adds itself:
  the \<^verbatim>\<open>store_true\<close> flag \<^verbatim>\<open>-pc/--pinecone\<close>. A token of the command line sets the flag
  exactly when it is \<^verbatim>\<open>-pc\<close>, \<^verbatim>\<open>--pinecone\<close> or one of their abbreviations, the list
  \<open>pinecone_spellings\<close>; a command line is accepted exactly when every token of it is
  such a spelling, and the flag is then true exactly when the command line is not empty,
  so it is false by default. When the client was built and the command line is accepted,
  the process runs \<^verbatim>\<open>main\<close> with \<open>use_pinecone\<close> true exactly when the flag was
  passed, and does nothing else; a command line that is not accepted ends the process
  before \<^verbatim>\<open>main\<close>. So in every invocation each retrieval goes to the hosted backend if
  the flag was passed and to the local one if not, nothing is provisioned without the
  flag, and an invocation that runs to the end has made its three retrievals on that
  backend.
\<close>

theorem script_backend_by_flag:
  "parser = [\<lparr>option_strings = [''-h'', ''--help''], act = Help\<rparr>,
             \<lparr>option_strings = [''-pc'', ''--pinecone''], act = StoreTrue\<rparr>] \<and>
   (\<forall>tok. parse_optional parser tok = Matched StoreTrue \<longleftrightarrow> tok \<in> set pinecone_spellings) \<and>
   (\<forall>args. parse_args parser argv = Inr args \<longleftrightarrow>
      list_all (\<lambda>tok. tok \<in> set pinecone_spellings) argv \<and>
      args = \<lparr>pinecone = (argv \<noteq> [])\<rparr>) \<and>
   parse_args parser [] = Inr \<lparr>pinecone = False\<rparr> \<and>
   parse_args parser [''-pc''] = Inr \<lparr>pinecone = True\<rparr> \<and>
   parse_args parser [''--pinecone''] = Inr \<lparr>pinecone = True\<rparr> \<and>
   (\<forall>chat. OpenAIChat_init ext (penv ''OPENAI_API_KEY'') = Inr chat \<longrightarrow>
      (\<forall>args. parse_args parser argv = Inr args \<longrightarrow>
         pinecone args = flag_passed argv \<and>
         events_of (script penv cfg ext argv s) =
           (Getenv ''OPENAI_API_KEY'', None) #
           (OpenAIChatInit (penv ''OPENAI_API_KEY''), None) #
             events_of (main cfg ext chat (flag_passed argv) s) \<and>
         final_of (script penv cfg ext argv s) =
           final_of (main cfg ext chat (flag_passed argv) s)) \<and>
      (\<forall>n. parse_args parser argv = Inl n \<longrightarrow>
         script penv cfg ext argv s =
           (SystemExit n,
            [(Getenv ''OPENAI_API_KEY'', None),
             (OpenAIChatInit (penv ''OPENAI_API_KEY''), None)], s))) \<and>
   list_all (\<lambda>b. b = selected (flag_passed argv))
     (backends (events_of (script penv cfg ext argv s))) \<and>
   (\<not> flag_passed argv \<longrightarrow>
      list_all (\<lambda>ev. \<not> is_provision (fst ev)) (events_of (script penv cfg ext argv s))) \<and>
   (result_of (script penv cfg ext argv s) = Finished \<longrightarrow>
      backends (events_of (script penv cfg ext argv s)) =
        [selected (flag_passed argv), selected (flag_passed argv), selected (flag_passed argv)])"
proof -
  have 1: "parser = [\<lparr>option_strings = [''-h'', ''--help''], act = Help\<rparr>,
             \<lparr>option_strings = [''-pc'', ''--pinecone''], act = StoreTrue\<rparr>]"
    by (simp add: parser_def ArgumentParser_def add_argument_def)
  have 2: "\<forall>tok. parse_optional parser tok = Matched StoreTrue \<longleftrightarrow> tok \<in> set pinecone_spellings"
    by (intro allI) (rule parse_optional_flag)
  have 3: "\<forall>args. parse_args parser argv = Inr args \<longleftrightarrow>
      list_all (\<lambda>tok. tok \<in> set pinecone_spellings) argv \<and>
      args = \<lparr>pinecone = (argv \<noteq> [])\<rparr>"
    by (intro allI) (rule parse_args_accept)
  have 4: "\<forall>chat. OpenAIChat_init ext (penv ''OPENAI_API_KEY'') = Inr chat \<longrightarrow>
      (\<forall>args. parse_args parser argv = Inr args \<longrightarrow>
         pinecone args = flag_passed argv \<and>
         events_of (script penv cfg ext argv s) =
           (Getenv ''OPENAI_API_KEY'', None) #
           (OpenAIChatInit (penv ''OPENAI_API_KEY''), None) #
             events_of (main cfg ext chat (flag_passed argv) s) \<and>
         final_of (script penv cfg ext argv s) =
           final_of (main cfg ext chat (flag_passed argv) s)) \<and>
      (\<forall>n. parse_args parser argv = Inl n \<longrightarrow>
         script penv cfg ext argv s =
           (SystemExit n,
            [(Getenv ''OPENAI_API_KEY'', None),
             (OpenAIChatInit (penv ''OPENAI_API_KEY''), None)], s))"
  proof (intro allI impI conjI)
    fix chat args
    assume built: "OpenAIChat_init ext (penv ''OPENAI_API_KEY'') = Inr chat"
      and acc: "parse_args parser argv = Inr args"
    show "pinecone args = flag_passed argv" by (rule parse_args_flag[OF acc])
    show "events_of (script penv cfg ext argv s) =
           (Getenv ''OPENAI_API_KEY'', None) #
           (OpenAIChatInit (penv ''OPENAI_API_KEY''), None) #
             events_of (main cfg ext chat (flag_passed argv) s)"
      by (simp add: script_accepted[where penv = penv and ext = ext, OF built acc])
    show "final_of (script penv cfg ext argv s) =
           final_of (main cfg ext chat (flag_passed argv) s)"
      by (simp add: script_accepted[where penv = penv and ext = ext, OF built acc])
  next
    fix chat n
    assume "OpenAIChat_init ext (penv ''OPENAI_API_KEY'') = Inr chat"
      and "parse_args parser argv = Inl n"
    then show "script penv cfg ext argv s =
           (SystemExit n,
            [(Getenv ''OPENAI_API_KEY'', None),
             (OpenAIChatInit (penv ''OPENAI_API_KEY''), None)], s)"
      by (simp add: script_unfold)
  qed
  note B = script_backends[of argv penv cfg ext s]
  from B have 5: "list_all (\<lambda>b. b = selected (flag_passed argv))
     (backends (events_of (script penv cfg ext argv s)))"
    by (rule conjunct1)
  from B have 6: "\<not> flag_passed argv \<longrightarrow>
      list_all (\<lambda>ev. \<not> is_provision (fst ev)) (events_of (script penv cfg ext argv s))"
    by (rule conjunct2 [THEN conjunct1])
  from B have 7: "result_of (script penv cfg ext argv s) = Finished \<longrightarrow>
      backends (events_of (script penv cfg ext argv s)) =
        [selected (flag_passed argv), selected (flag_passed argv), selected (flag_passed argv)]"
    by (rule conjunct2 [THEN conjunct2])
  from 1 2 3 parse_args_none parse_args_pc parse_args_pinecone 4 5 6 7
  show ?thesis by (intro conjI)
qed

text \<open>
  With the flag the three retrievals of a completed run are hosted; an empty command line
  gives a local run, which provisions nothing; and \<^verbatim>\<open>--pine\<close> is the flag, \<^verbatim>\<open>--verbose\<close> is
  not.
\<close>

theorem script_backend_by_flag_witness:
  "backends (events_of (script [''OPENAI_API_KEY'' \<mapsto> ''sk''] sample_cfg sample_ext
      [''--pinecone''] fresh)) = [Hosted, Hosted, Hosted] \<and>
   list_all (\<lambda>ev. \<not> is_provision (fst ev))
     (events_of (script [''OPENAI_API_KEY'' \<mapsto> ''sk''] sample_cfg sample_ext [] cached)) \<and>
   parse_optional parser ''--pine'' = Matched StoreTrue \<and>
   parse_optional parser ''--verbose'' \<noteq> Matched StoreTrue"
proof -
  have "result_of (script [''OPENAI_API_KEY'' \<mapsto> ''sk''] sample_cfg sample_ext
      [''--pinecone''] fresh) = Finished"
    using sample_run_hosted by (simp add: script_unfold parse_args_pinecone sample_chat_def)
  with script_backend_by_flag [of "[''--pinecone'']" sample_ext "[''OPENAI_API_KEY'' \<mapsto> ''sk'']"
        sample_cfg fresh]
  have "backends (events_of (script [''OPENAI_API_KEY'' \<mapsto> ''sk''] sample_cfg sample_ext
      [''--pinecone''] fresh)) =
      [selected (flag_passed [''--pinecone'']), selected (flag_passed [''--pinecone'']),
       selected (flag_passed [''--pinecone''])]"
    by blast
  then have a: "backends (events_of (script [''OPENAI_API_KEY'' \<mapsto> ''sk''] sample_cfg sample_ext
      [''--pinecone''] fresh)) = [Hosted, Hosted, Hosted]"
    by (simp add: flag_passed_pinecone selected_def)
  have "\<not> flag_passed []" by (simp add: flag_passed_def)
  with script_backend_by_flag [of "[]" sample_ext "[''OPENAI_API_KEY'' \<mapsto> ''sk'']"
        sample_cfg cached]
  have b: "list_all (\<lambda>ev. \<not> is_provision (fst ev))
     (events_of (script [''OPENAI_API_KEY'' \<mapsto> ''sk''] sample_cfg sample_ext [] cached))"
    by blast
  from script_backend_by_flag [of "[]" sample_ext "[''OPENAI_API_KEY'' \<mapsto> ''sk'']"
        sample_cfg cached]
  have c: "\<forall>tok. parse_optional parser tok = Matched StoreTrue \<longleftrightarrow> tok \<in> set pinecone_spellings"
    by (rule conjunct2 [THEN conjunct1])
  from c have d: "parse_optional parser ''--pine'' = Matched StoreTrue"
    by (simp add: pinecone_spellings_def)
  from c have e: "parse_optional parser ''--verbose'' \<noteq> Matched StoreTrue"
    by (simp add: pinecone_spellings_def)
  from a b d e show ?thesis by (intro conjI)
qed

subsection \<open>The credential\<close>








section \<open>Properties of the components the spec describes\<close>

subsection \<open>The local retriever\<close>

text \<open>
  An entry comes before another when its score is higher, or the scores are equal and
  its record is earlier in the corpus.
\<close>

lemma insort_before:
  fixes x :: "nat \<times> real"
  assumes "sorted_wrt (\<lambda>a b. snd b < snd a \<or> (snd a = snd b \<and> fst a < fst b)) ys"
    and "\<forall>y\<in>set ys. fst x < fst y"
  shows "sorted_wrt (\<lambda>a b. snd b < snd a \<or> (snd a = snd b \<and> fst a < fst b))
           (insort_key (\<lambda>p. - snd p) x ys)"
  using assms by (induction ys) (auto simp: set_insort_key)

lemma ranked_before:
  "sorted_wrt (<) (map fst xs) \<Longrightarrow>
   sorted_wrt (\<lambda>a b. snd b < snd a \<or> (snd a = snd b \<and> fst a < fst b)) (ranked xs)"
  unfolding ranked_def
proof (induction xs)
  case Nil
  show ?case by simp
next
  case (Cons x xs)
  then have "sorted_wrt (\<lambda>a b. snd b < snd a \<or> (snd a = snd b \<and> fst a < fst b))
      (sort_key (\<lambda>p. - snd p) xs)" by simp
  moreover from Cons.prems have "\<forall>y\<in>set (sort_key (\<lambda>p. - snd p) xs). fst x < fst y"
    by auto
  ultimately show ?case by (simp add: insort_before)
qed

lemma scored_positions:
  "map fst (map (\<lambda>(i, r). (i, f r)) (enumerate 0 corpus)) = [0..<length corpus]"
proof -
  have "map fst (map (\<lambda>(i, r). (i, f r)) (enumerate 0 corpus)) = map fst (enumerate 0 corpus)"
    by (simp add: case_prod_unfold comp_def)
  then show ?thesis by (simp add: map_fst_enumerate)
qed

lemma scored_entries:
  "p \<in> set (map (\<lambda>(i, r). (i, f r)) (enumerate 0 corpus)) \<Longrightarrow>
   fst p < length corpus \<and> snd p = f (corpus ! fst p)"
  by (auto simp: in_set_enumerate_eq)

lemma scored_member:
  "i < length corpus \<Longrightarrow>
   (i, f (corpus ! i)) \<in> set (map (\<lambda>(i, r). (i, f r)) (enumerate 0 corpus))"
proof -
  assume "i < length corpus"
  then have "(i, corpus ! i) \<in> set (enumerate 0 corpus)"
    by (simp add: in_set_enumerate_eq)
  then have "(\<lambda>(i, r). (i, f r)) (i, corpus ! i) \<in> (\<lambda>(i, r). (i, f r)) ` set (enumerate 0 corpus)"
    by (rule imageI)
  then show ?thesis by simp
qed

lemma ranked_take:
  fixes xs :: "(nat \<times> real) list"
  assumes "sorted_wrt (<) (map fst xs)"
  shows "sorted_wrt (\<lambda>a b. snd b \<le> snd a) (take n (ranked xs))"
    and "length (take n (ranked xs)) = min n (length xs)"
    and "\<And>i j. i < j \<Longrightarrow> j < length (take n (ranked xs)) \<Longrightarrow>
           snd (take n (ranked xs) ! i) = snd (take n (ranked xs) ! j) \<Longrightarrow>
           fst (take n (ranked xs) ! i) < fst (take n (ranked xs) ! j)"
    and "set (take n (ranked xs)) \<subseteq> set xs"
    and "distinct (map fst (take n (ranked xs)))"
    and "\<And>p y. p \<in> set (take n (ranked xs)) \<Longrightarrow> y \<in> set xs \<Longrightarrow>
           y \<notin> set (take n (ranked xs)) \<Longrightarrow>
           snd y < snd p \<or> (snd p = snd y \<and> fst p < fst y)"
proof -
  let ?before = "\<lambda>a b :: nat \<times> real. snd b < snd a \<or> (snd a = snd b \<and> fst a < fst b)"
  have A: "sorted_wrt ?before (ranked xs)" by (rule ranked_before[OF assms])
  have B: "sorted_wrt ?before (take n (ranked xs))"
    using A by (rule sorted_wrt_take)
  show "sorted_wrt (\<lambda>a b. snd b \<le> snd a) (take n (ranked xs))"
    by (rule sorted_wrt_mono_rel[OF _ B]) auto
  show "length (take n (ranked xs)) = min n (length xs)"
    by (simp add: ranked_def min.commute)
  show "fst (take n (ranked xs) ! i) < fst (take n (ranked xs) ! j)"
    if "i < j" "j < length (take n (ranked xs))"
      "snd (take n (ranked xs) ! i) = snd (take n (ranked xs) ! j)" for i j
    using sorted_wrt_nth_less[OF B that(1,2)] that(3) by simp
  show "set (take n (ranked xs)) \<subseteq> set xs"
    using set_take_subset[of n "ranked xs"] by (simp add: ranked_def)
  from assms have "distinct (map fst xs)" by (simp add: strict_sorted_iff)
  then have "distinct (map fst (ranked xs))"
    by (simp add: ranked_def distinct_map)
  then have "distinct (take n (map fst (ranked xs)))" by (rule distinct_take)
  then show "distinct (map fst (take n (ranked xs)))" by (simp add: take_map)
  show "snd y < snd p \<or> (snd p = snd y \<and> fst p < fst y)"
    if p: "p \<in> set (take n (ranked xs))" and y: "y \<in> set xs"
      and out: "y \<notin> set (take n (ranked xs))" for p y
  proof -
    from y have "y \<in> set (ranked xs)" by (simp add: ranked_def)
    then have "y \<in> set (take n (ranked xs)) \<union> set (drop n (ranked xs))"
      by (metis append_take_drop_id set_append)
    with out have y': "y \<in> set (drop n (ranked xs))" by blast
    from A have "sorted_wrt ?before (take n (ranked xs) @ drop n (ranked xs))" by simp
    then have "\<forall>a\<in>set (take n (ranked xs)). \<forall>b\<in>set (drop n (ranked xs)). ?before a b"
      by (simp only: sorted_wrt_append) blast
    with p y' show ?thesis by blast
  qed
qed

text \<open>
  Claim C3. The local retriever answers whenever the query can be embedded and every
  record has its vector. Its answer is in non-increasing order of score, has exactly
  \<open>min count |C|\<close> entries, lists entries of equal score in corpus order, and every
  entry is a record of the corpus with its dot product with the query vector, no record
  twice. The entries are the top of the ranking: a record that is not in the answer has a
  lower score than every entry, or the same score as an entry and a later place in the
  corpus, so a tie at the cut-off is decided for the earlier record.
\<close>

theorem retrieve_ranked:
  "(\<forall>qv. embed_query q = Some qv \<longrightarrow> list_all (\<lambda>r. embedding r \<noteq> None) C \<longrightarrow>
      (\<exists>rs. retrieve embed_query q count C = Inr rs)) \<and>
   (\<forall>rs. retrieve embed_query q count C = Inr rs \<longrightarrow>
      sorted_wrt (\<lambda>a b. snd b \<le> snd a) rs \<and>
      length rs = min count (length C) \<and>
      (\<forall>i j. i < j \<longrightarrow> j < length rs \<longrightarrow> snd (rs ! i) = snd (rs ! j) \<longrightarrow>
         fst (rs ! i) < fst (rs ! j)) \<and>
      (\<forall>p\<in>set rs. fst p < length C \<and>
         (\<exists>qv. embed_query q = Some qv \<and> snd p = dot qv (the (embedding (C ! fst p))))) \<and>
      distinct (map fst rs) \<and>
      (\<forall>p\<in>set rs. \<forall>i<length C. i \<notin> fst ` set rs \<longrightarrow>
         (\<exists>qv. embed_query q = Some qv \<and>
            (dot qv (the (embedding (C ! i))) < snd p \<or>
             (dot qv (the (embedding (C ! i))) = snd p \<and> fst p < i)))))"
proof (intro conjI allI impI)
  fix qv assume "embed_query q = Some qv" "list_all (\<lambda>r. embedding r \<noteq> None) C"
  then show "\<exists>rs. retrieve embed_query q count C = Inr rs"
    by (simp add: retrieve_def)
next
  fix rs assume R: "retrieve embed_query q count C = Inr rs"
  then obtain qv where qv: "embed_query q = Some qv"
    by (auto simp: retrieve_def split: option.splits)
  let ?scored = "map (\<lambda>(i, r). (i, dot qv (the (embedding r)))) (enumerate 0 C)"
  from R qv have rs: "rs = take count (ranked ?scored)"
    by (auto simp: retrieve_def split: if_splits)
  have S: "sorted_wrt (<) (map fst ?scored)"
    by (simp only: scored_positions sorted_wrt_upt)
  note T = ranked_take[OF S, where n = count]
  show "sorted_wrt (\<lambda>a b. snd b \<le> snd a) rs" unfolding rs by (rule T(1))
  show "length rs = min count (length C)" unfolding rs using T(2) by simp
  show "fst (rs ! i) < fst (rs ! j)"
    if "i < j" "j < length rs" "snd (rs ! i) = snd (rs ! j)" for i j
    using T(3)[of i j] that unfolding rs by blast
  show "\<forall>p\<in>set rs. fst p < length C \<and>
         (\<exists>qv. embed_query q = Some qv \<and> snd p = dot qv (the (embedding (C ! fst p))))"
  proof
    fix p assume "p \<in> set rs"
    with T(4) have "p \<in> set ?scored" unfolding rs by blast
    from scored_entries[OF this] qv
    show "fst p < length C \<and>
         (\<exists>qv. embed_query q = Some qv \<and> snd p = dot qv (the (embedding (C ! fst p))))"
      by simp
  qed
  show "distinct (map fst rs)" unfolding rs by (rule T(5))
  show "\<forall>p\<in>set rs. \<forall>i<length C. i \<notin> fst ` set rs \<longrightarrow>
         (\<exists>qv. embed_query q = Some qv \<and>
            (dot qv (the (embedding (C ! i))) < snd p \<or>
             (dot qv (the (embedding (C ! i))) = snd p \<and> fst p < i)))"
  proof (intro ballI allI impI)
    fix p i assume p: "p \<in> set rs" and i: "i < length C" and out: "i \<notin> fst ` set rs"
    let ?y = "(i, dot qv (the (embedding (C ! i))))"
    have y: "?y \<in> set ?scored"
      by (rule scored_member[OF i, where f = "\<lambda>r. dot qv (the (embedding r))"])
    from out have "?y \<notin> set rs" by force
    from T(6)[OF p[unfolded rs] y this[unfolded rs]]
    have "dot qv (the (embedding (C ! i))) < snd p \<or>
        (dot qv (the (embedding (C ! i))) = snd p \<and> fst p < i)"
      by auto
    with qv show "\<exists>qv. embed_query q = Some qv \<and>
            (dot qv (the (embedding (C ! i))) < snd p \<or>
             (dot qv (the (embedding (C ! i))) = snd p \<and> fst p < i))"
      by simp
  qed
qed

lemma sample_scored:
  "map (\<lambda>(i, r). (i, dot [1, 0] (the (embedding r)))) (enumerate 0 sample_corpus) =
     [(0, 1), (1, 3), (2, 0), (3, 3), (4, 2)]"
  by (simp add: sample_corpus_def sample_article_def dot_def enumerate_simps)

lemma sample_ranked:
  "ranked [(0, 1), (1, 3), (2, 0), (3, 3), (4, 2)] = [(1, 3), (3, 3), (4, 2), (0, 1), (2, 0)]"
  by (simp add: ranked_def sort_key_def)

lemma sample_retrieve:
  "retrieve sample_embed_query ''sports'' n sample_corpus =
     Inr (take n [(1, 3), (3, 3), (4, 2), (0, 1), (2, 0)])"
proof -
  have "list_all (\<lambda>r. embedding r \<noteq> None) sample_corpus"
    by (simp add: sample_corpus_def sample_article_def)
  then have "retrieve sample_embed_query ''sports'' n sample_corpus =
      Inr (take n (ranked (map (\<lambda>(i, r). (i, dot [1, 0] (the (embedding r))))
        (enumerate 0 sample_corpus))))"
    by (simp add: retrieve_def sample_embed_query_def)
  also have "\<dots> = Inr (take n [(1, 3), (3, 3), (4, 2), (0, 1), (2, 0)])"
    by (simp only: sample_scored sample_ranked)
  finally show ?thesis .
qed

lemma sample_retrieve_two:
  "retrieve sample_embed_query ''sports'' 2 sample_corpus = Inr [(1, 3), (3, 3)]"
  by (simp add: sample_retrieve)

lemma sample_retrieve_one:
  "retrieve sample_embed_query ''sports'' 1 sample_corpus = Inr [(1, 3)]"
  by (simp add: sample_retrieve)

text \<open>
  Records 1 and 3 both score 3, the highest. Asked for two entries the retriever lists
  them in corpus order; asked for one it returns record 1, and record 3, which is left
  out, has the same score and the later place.
\<close>

theorem retrieve_ranked_witness:
  "retrieve sample_embed_query ''sports'' 2 sample_corpus = Inr [(1, 3), (3, 3)] \<and>
   sorted_wrt (\<lambda>a b. snd b \<le> snd a) [(1 :: nat, 3 :: real), (3, 3)] \<and>
   length [(1 :: nat, 3 :: real), (3, 3)] = min 2 (length sample_corpus) \<and>
   retrieve sample_embed_query ''sports'' 1 sample_corpus = Inr [(1, 3)] \<and>
   (\<exists>qv. sample_embed_query ''sports'' = Some qv \<and>
      (dot qv (the (embedding (sample_corpus ! 3))) < 3 \<or>
       dot qv (the (embedding (sample_corpus ! 3))) = 3))"
proof -
  from retrieve_ranked [of sample_embed_query "''sports''" sample_corpus 2]
  have "\<forall>rs. retrieve sample_embed_query ''sports'' 2 sample_corpus = Inr rs \<longrightarrow>
      sorted_wrt (\<lambda>a b. snd b \<le> snd a) rs \<and> length rs = min 2 (length sample_corpus) \<and>
      (\<forall>i j. i < j \<longrightarrow> j < length rs \<longrightarrow> snd (rs ! i) = snd (rs ! j) \<longrightarrow>
         fst (rs ! i) < fst (rs ! j)) \<and>
      (\<forall>p\<in>set rs. fst p < length sample_corpus \<and>
         (\<exists>qv. sample_embed_query ''sports'' = Some qv \<and>
            snd p = dot qv (the (embedding (sample_corpus ! fst p))))) \<and>
      distinct (map fst rs) \<and>
      (\<forall>p\<in>set rs. \<forall>i<length sample_corpus. i \<notin> fst ` set rs \<longrightarrow>
         (\<exists>qv. sample_embed_query ''sports'' = Some qv \<and>
            (dot qv (the (embedding (sample_corpus ! i))) < snd p \<or>
             (dot qv (the (embedding (sample_corpus ! i))) = snd p \<and> fst p < i))))"
    by (rule conjunct2)
  note A = this [rule_format, OF sample_retrieve_two]
  from A have a: "sorted_wrt (\<lambda>a b. snd b \<le> snd a) [(1 :: nat, 3 :: real), (3, 3)]"
    by (rule conjunct1)
  from A have b: "length [(1 :: nat, 3 :: real), (3, 3)] = min 2 (length sample_corpus)"
    by (rule conjunct2 [THEN conjunct1])
  from retrieve_ranked [of sample_embed_query "''sports''" sample_corpus 1]
  have "\<forall>rs. retrieve sample_embed_query ''sports'' 1 sample_corpus = Inr rs \<longrightarrow>
      sorted_wrt (\<lambda>a b. snd b \<le> snd a) rs \<and> length rs = min 1 (length sample_corpus) \<and>
      (\<forall>i j. i < j \<longrightarrow> j < length rs \<longrightarrow> snd (rs ! i) = snd (rs ! j) \<longrightarrow>
         fst (rs ! i) < fst (rs ! j)) \<and>
      (\<forall>p\<in>set rs. fst p < length sample_corpus \<and>
         (\<exists>qv. sample_embed_query ''sports'' = Some qv \<and>
            snd p = dot qv (the (embedding (sample_corpus ! fst p))))) \<and>
      distinct (map fst rs) \<and>
      (\<forall>p\<in>set rs. \<forall>i<length sample_corpus. i \<notin> fst ` set rs \<longrightarrow>
         (\<exists>qv. sample_embed_query ''sports'' = Some qv \<and>
            (dot qv (the (embedding (sample_corpus ! i))) < snd p \<or>
             (dot qv (the (embedding (sample_corpus ! i))) = snd p \<and> fst p < i))))"
    by (rule conjunct2)
  note B = this [rule_format, OF sample_retrieve_one]
  from B have "\<forall>p\<in>set [(1 :: nat, 3 :: real)]. \<forall>i<length sample_corpus.
      i \<notin> fst ` set [(1 :: nat, 3 :: real)] \<longrightarrow>
         (\<exists>qv. sample_embed_query ''sports'' = Some qv \<and>
            (dot qv (the (embedding (sample_corpus ! i))) < snd p \<or>
             (dot qv (the (embedding (sample_corpus ! i))) = snd p \<and> fst p < i)))"
    by (rule conjunct2 [THEN conjunct2, THEN conjunct2, THEN conjunct2, THEN conjunct2])
  note C = this [rule_format, of "(1, 3)" 3]
  have "(3 :: nat) < length sample_corpus" by (simp add: sample_corpus_def)
  with C have c: "\<exists>qv. sample_embed_query ''sports'' = Some qv \<and>
      (dot qv (the (embedding (sample_corpus ! 3))) < 3 \<or>
       dot qv (the (embedding (sample_corpus ! 3))) = 3)"
    by auto
  from sample_retrieve_two a b sample_retrieve_one c show ?thesis by (intro conjI)
qed

subsection \<open>The embedding stage\<close>

lemma embed_noop:
  "list_all (\<lambda>r. embedding r \<noteq> None) corpus \<Longrightarrow> embed client corpus w = (Inr corpus, w)"
  by (induction corpus) auto

lemma embed_embedded:
  "embed client corpus w = (Inr corpus', w') \<Longrightarrow> list_all (\<lambda>r. embedding r \<noteq> None) corpus'"
  by (induction corpus arbitrary: w corpus' w')
    (auto split: option.splits prod.splits sum.splits)

text \<open>
  Claim C4. The embedding stage is idempotent. On a corpus in which every record has an
  embedding it returns the corpus as it is and leaves the outside world as it was: no
  request goes to the provider. And whatever corpus a run of the stage returns, running
  the stage on it again returns it unchanged.
\<close>

theorem embed_idempotent:
  "(list_all (\<lambda>r. embedding r \<noteq> None) corpus \<longrightarrow> embed client corpus w = (Inr corpus, w)) \<and>
   (\<forall>corpus' w' w''. embed client corpus w = (Inr corpus', w') \<longrightarrow>
      embed client corpus' w'' = (Inr corpus', w''))"
proof (intro conjI impI allI)
  assume "list_all (\<lambda>r. embedding r \<noteq> None) corpus"
  then show "embed client corpus w = (Inr corpus, w)" by (rule embed_noop)
next
  fix corpus' w' w''
  assume "embed client corpus w = (Inr corpus', w')"
  then have "list_all (\<lambda>r. embedding r \<noteq> None) corpus'" by (rule embed_embedded)
  then show "embed client corpus' w'' = (Inr corpus', w'')" by (rule embed_noop)
qed

theorem embed_idempotent_witness:
  "embed sample_client sample_corpus 0 = (Inr sample_corpus, 0)"
proof -
  have "list_all (\<lambda>r. embedding r \<noteq> None) sample_corpus"
    by (simp add: sample_corpus_def sample_article_def)
  moreover from embed_idempotent [of sample_corpus sample_client 0]
  have "list_all (\<lambda>r. embedding r \<noteq> None) sample_corpus \<longrightarrow>
      embed sample_client sample_corpus 0 = (Inr sample_corpus, 0)"
    by (rule conjunct1)
  ultimately show ?thesis by simp
qed

end
